theory Spec2Isabelle
  imports Main
begin

section \<open>JavaScript values used by the pipeline\<close>

text \<open>
  A record delivered by the CSV parser is a JavaScript object whose keys are the
  header names. It is modelled as an association list in the object's own key
  order (the order of \<^verbatim>\<open>Object.keys\<close>); a lookup of a missing key is
  \<open>None\<close> (JavaScript's \<^verbatim>\<open>undefined\<close>). Strings are byte lists, and
  \<^verbatim>\<open>toLowerCase\<close> is modelled on the ASCII letters.
\<close>

type_synonym row = "(string \<times> string) list"

definition lower_char :: "char \<Rightarrow> char" where
  "lower_char c =
     (case map_of (zip ''ABCDEFGHIJKLMNOPQRSTUVWXYZ'' ''abcdefghijklmnopqrstuvwxyz'') c of
        Some d \<Rightarrow> d
      | None \<Rightarrow> c)"

definition toLowerCase :: "string \<Rightarrow> string" where
  "toLowerCase s = map lower_char s"

fun startsWith :: "string \<Rightarrow> string \<Rightarrow> bool" where
  "startsWith s [] = True"
| "startsWith [] (p # ps) = False"
| "startsWith (c # s) (p # ps) = (c = p \<and> startsWith s ps)"

fun str_includes :: "string \<Rightarrow> string \<Rightarrow> bool" where
  "str_includes [] p = (p = [])"
| "str_includes (c # s) p = (startsWith (c # s) p \<or> str_includes s p)"

text \<open>Property read \<^verbatim>\<open>row[k]\<close>, where the key itself may be \<^verbatim>\<open>undefined\<close>:
  JavaScript then reads the property named \<^verbatim>\<open>undefined\<close>.\<close>

definition get_prop :: "row \<Rightarrow> string option \<Rightarrow> string option" where
  "get_prop row k = (case k of Some key \<Rightarrow> map_of row key | None \<Rightarrow> map_of row ''undefined'')"

text \<open>Truthiness of a string-or-undefined value, and the operator \<^verbatim>\<open>||\<close>.\<close>

definition truthy :: "string option \<Rightarrow> bool" where
  "truthy v = (case v of None \<Rightarrow> False | Some s \<Rightarrow> s \<noteq> [])"

definition js_or :: "string option \<Rightarrow> string option \<Rightarrow> string option" where
  "js_or a b = (if truthy a then a else b)"

text \<open>Property write \<^verbatim>\<open>row[k] = v\<close> (also what an object spread followed by the
  property does): an existing key keeps its position, a new key goes last.\<close>

fun assign :: "row \<Rightarrow> string \<Rightarrow> string \<Rightarrow> row" where
  "assign [] k v = [(k, v)]"
| "assign ((k', v') # r) k v = (if k' = k then (k, v) # r else (k', v') # assign r k v)"

section \<open>Data model\<close>

datatype job_status = Processing | Completed | Failed

record job_stats =
  valid :: nat
  invalid :: nat
  risky :: nat

text \<open>The job document of the \<^verbatim>\<open>jobs\<close> collection. Fields a document does not
  have yet (\<^verbatim>\<open>downloadUrl\<close>, \<^verbatim>\<open>error\<close>, \<^verbatim>\<open>completedAt\<close>) are \<open>None\<close>.\<close>

record job =
  jid :: string
  userId :: string
  status :: job_status
  fileName :: string
  processedCount :: nat
  totalEmails :: nat
  stats :: job_stats
  createdAt :: nat
  downloadUrl :: "string option"
  error :: "string option"
  completedAt :: "nat option"

text \<open>What the parser stream delivers for a file: its records, then either
  \<^verbatim>\<open>end\<close> or an \<^verbatim>\<open>error\<close> event carrying a message.\<close>

datatype ending = End | Error string

datatype csv_file = File (records: "row list") (ending: ending)

text \<open>The collaborators the code calls but does not define: the
  \<^verbatim>\<open>email-validator\<close> library, the outcome and the server time of the n-th
  document write, the identifier generator and the token verifier.\<close>

record env =
  validate :: "string \<Rightarrow> bool"
  store_err :: "nat \<Rightarrow> string option"
  clock :: "nat \<Rightarrow> nat"
  gen_id :: "nat \<Rightarrow> string"
  verifyIdToken :: "string \<Rightarrow> string option"

text \<open>The state the pipeline reads and writes: the job collection, the files on
  disk, the number of document writes attempted so far, the paths handed to
  \<^verbatim>\<open>unlink\<close>/\<^verbatim>\<open>remove\<close> (latest first), and every document version the
  store has held (latest first), which is what a polling caller can observe.\<close>

record world =
  jobs :: "string \<rightharpoonup> job"
  disk :: "string \<rightharpoonup> csv_file"
  writes :: nat
  removed :: "string list"
  snapshots :: "(string \<times> job) list"

text \<open>How the promise returned by a worker settles. \<open>Uncaught\<close> is an error that
  no handler of the worker receives (the promise never settles).\<close>

datatype outcome = Resolved | Rejected string | Uncaught string

section \<open>Store and file operations\<close>

text \<open>\<^verbatim>\<open>doc(jobId).update(fields)\<close>: fails with the store's error, or when the
  document does not exist; otherwise merges the fields.\<close>

definition update_doc :: "env \<Rightarrow> string \<Rightarrow> (job \<Rightarrow> job) \<Rightarrow> world \<Rightarrow> string option \<times> world" where
  "update_doc e jobId upd w =
     (let w' = w\<lparr>writes := Suc (writes w)\<rparr> in
      case store_err e (writes w) of
        Some msg \<Rightarrow> (Some msg, w')
      | None \<Rightarrow>
          (case jobs w jobId of
             None \<Rightarrow> (Some ''NOT_FOUND'', w')
           | Some j \<Rightarrow>
               (None, w'\<lparr>jobs := (jobs w)(jobId \<mapsto> upd j),
                          snapshots := (jobId, upd j) # snapshots w\<rparr>)))"

text \<open>\<^verbatim>\<open>doc(jobId).set(data)\<close>: fails with the store's error, otherwise replaces
  the document.\<close>

definition set_doc :: "env \<Rightarrow> string \<Rightarrow> job \<Rightarrow> world \<Rightarrow> string option \<times> world" where
  "set_doc e jobId j w =
     (let w' = w\<lparr>writes := Suc (writes w)\<rparr> in
      case store_err e (writes w) of
        Some msg \<Rightarrow> (Some msg, w')
      | None \<Rightarrow>
          (None, w'\<lparr>jobs := (jobs w)(jobId \<mapsto> j), snapshots := (jobId, j) # snapshots w\<rparr>))"

text \<open>\<^verbatim>\<open>fs.unlink\<close> and \<^verbatim>\<open>fs.remove\<close>. The code only logs their errors,
  and logging is not modelled: the call is recorded and the file is gone.\<close>

definition remove_file :: "string \<Rightarrow> world \<Rightarrow> world" where
  "remove_file p w = w\<lparr>disk := (disk w)(p := None), removed := p # removed w\<rparr>"

text \<open>The workers and the download route address the same \<^verbatim>\<open>temp\<close> directory.
  A path is the directory, a separator and the name as given; the normalisation
  that \<^verbatim>\<open>path.join\<close> applies to dots and repeated separators is not modelled.\<close>

definition temp_path :: "string \<Rightarrow> string" where
  "temp_path name = ''temp/'' @ name"

definition results_name :: "string \<Rightarrow> string" where
  "results_name jobId = ''results-'' @ jobId @ ''.csv''"

text \<open>
  The output stream is created by \<^verbatim>\<open>format({ headers: true })\<close> of the
  \<^verbatim>\<open>@fast-csv/format\<close> library, which the repository calls and does not define.
  With that option the formatter takes the columns of the file from the keys of
  the first record written to it, and writes for every record one line holding
  the record's values under these columns, in this order: a record that lacks a
  column gets an empty cell, and a value under any other key is not written. A
  result file is represented by its lines, each as the list of its cells paired
  with the column names; quoting of cells is not modelled.
\<close>

definition cell :: "row \<Rightarrow> string \<Rightarrow> string" where
  "cell x k = (case map_of x k of Some v \<Rightarrow> v | None \<Rightarrow> [])"

definition format_rows :: "row list \<Rightarrow> row list" where
  "format_rows written =
     (case written of
        [] \<Rightarrow> []
      | first # _ \<Rightarrow> map (\<lambda>x. map (\<lambda>k. (k, cell x k)) (map fst first)) written)"

section \<open>The syntax-only worker (backend/worker.js)\<close>

text \<open>
  \<^verbatim>\<open>processCsvJob\<close> of \<^verbatim>\<open>backend/worker.js\<close>. The repository holds a second copy
  of this worker that differs only in declaring \<^verbatim>\<open>riskyCount\<close> a constant 0; the
  model covers both. Creating the \<^verbatim>\<open>temp\<close> directory and opening the output
  stream are taken to succeed. Counters are natural numbers. A file that cannot
  be opened raises its error on the file stream, which \<^verbatim>\<open>pipe\<close> does not pass
  on to the parser stream, so no handler of the worker receives it.
\<close>

record tally =
  validCount :: nat
  invalidCount :: nat
  riskyCount :: nat

definition emailKey :: "row \<Rightarrow> string option" where
  "emailKey row = find (\<lambda>k. str_includes (toLowerCase k) ''email'') (map fst row)"

text \<open>The \<^verbatim>\<open>data\<close> handler: classify one record, count it, write it.\<close>

definition on_data :: "env \<Rightarrow> tally \<times> row list \<Rightarrow> row \<Rightarrow> tally \<times> row list" where
  "on_data e st row =
     (let email = get_prop row (emailKey row) in
      if truthy email \<and> validate e (the email)
      then (fst st\<lparr>validCount := validCount (fst st) + 1\<rparr>,
            snd st @ [assign row ''Validation Status'' ''Valid''])
      else (fst st\<lparr>invalidCount := invalidCount (fst st) + 1\<rparr>,
            snd st @ [assign row ''Validation Status'' ''Invalid'']))"

definition final_fields :: "tally \<Rightarrow> string \<Rightarrow> job \<Rightarrow> job" where
  "final_fields c outputFilename j =
     j\<lparr>status := Completed,
       processedCount := validCount c + invalidCount c + riskyCount c,
       totalEmails := validCount c + invalidCount c + riskyCount c,
       stats := \<lparr>valid = validCount c, invalid = invalidCount c, risky = riskyCount c\<rparr>,
       downloadUrl := Some (''/api/download/'' @ outputFilename)\<rparr>"

definition processCsvJob :: "env \<Rightarrow> string \<Rightarrow> string \<Rightarrow> world \<Rightarrow> outcome \<times> world" where
  "processCsvJob e jobId filePath w =
     (let outputFilename = results_name jobId;
          outputPath = temp_path outputFilename;
          w1 = w\<lparr>disk := (disk w)(outputPath \<mapsto> File [] End)\<rparr>
      in case disk w1 filePath of
           None \<Rightarrow> (Uncaught ''ENOENT'', w1)
         | Some f \<Rightarrow>
             (let st = foldl (on_data e) (\<lparr>validCount = 0, invalidCount = 0, riskyCount = 0\<rparr>, [])
                         (records f);
                  w2 = w1\<lparr>disk := (disk w1)(outputPath \<mapsto> File (format_rows (snd st)) End)\<rparr>
              in case ending f of
                   End \<Rightarrow>
                     (case update_doc e jobId (final_fields (fst st) outputFilename) w2 of
                        (None, w3) \<Rightarrow> (Resolved, remove_file filePath w3)
                      | (Some err, w3) \<Rightarrow> (Rejected err, w3))
                 | Error msg \<Rightarrow>
                     (case update_doc e jobId (\<lambda>j. j\<lparr>status := Failed\<rparr>) w2 of
                        (None, w3) \<Rightarrow> (Rejected msg, w3)
                      | (Some err, w3) \<Rightarrow> (Uncaught err, w3))))"

section \<open>The deep-validation worker\<close>

text \<open>
  The variant of \<^verbatim>\<open>processCsvJob\<close> that validates through \<^verbatim>\<open>validateEmail\<close>,
  reports progress every ten records and cleans up in a \<^verbatim>\<open>finally\<close> block.
  \<^verbatim>\<open>ensureDir\<close> and opening the output stream are taken to succeed. The loop
  is written for any validation function; the worker instantiates it with the
  one of the source.
\<close>

text \<open>The validation function of this variant, as the source has it.\<close>

definition validateEmail :: "string \<Rightarrow> string \<times> string" where
  "validateEmail email = (''Risky'', ''Mock Logic'')"

definition first_value :: "row \<Rightarrow> string option" where
  "first_value row = (case row of [] \<Rightarrow> None | kv # _ \<Rightarrow> Some (snd kv))"

definition locate_email :: "row \<Rightarrow> string option" where
  "locate_email row = js_or (js_or (map_of row ''email'') (map_of row ''Email'')) (first_value row)"

record loop_state =
  processed :: nat
  counts :: tally
  out :: "row list"
  wld :: world

definition count_result :: "string \<Rightarrow> tally \<Rightarrow> tally" where
  "count_result st c =
     (if st = ''Valid'' then c\<lparr>validCount := validCount c + 1\<rparr>
      else if st = ''Invalid'' then c\<lparr>invalidCount := invalidCount c + 1\<rparr>
      else c\<lparr>riskyCount := riskyCount c + 1\<rparr>)"

definition progress_fields :: "nat \<Rightarrow> tally \<Rightarrow> job \<Rightarrow> job" where
  "progress_fields n c j =
     j\<lparr>processedCount := n,
       stats := \<lparr>valid = validCount c, invalid = invalidCount c, risky = riskyCount c\<rparr>\<rparr>"

text \<open>The body of the \<^verbatim>\<open>for await\<close> loop for one record. The first component
  is the error thrown by the body, if any.\<close>

definition deep_step ::
  "env \<Rightarrow> (string \<Rightarrow> string \<times> string) \<Rightarrow> string \<Rightarrow> row \<Rightarrow> loop_state \<Rightarrow> string option \<times> loop_state" where
  "deep_step e ve jobId row s =
     (let email = locate_email row in
      if \<not> truthy email then (None, s)
      else
        (let result = ve (the email);
             c = count_result (fst result) (counts s);
             n = processed s + 1;
             s1 = s\<lparr>processed := n, counts := c,
                    out := out s @ [assign (assign row ''validation_status'' (fst result))
                                      ''validation_reason'' (snd result)]\<rparr>
         in if n mod 10 = 0
            then (case update_doc e jobId (progress_fields n c) (wld s1) of
                    (None, w') \<Rightarrow> (None, s1\<lparr>wld := w'\<rparr>)
                  | (Some err, w') \<Rightarrow> (Some err, s1\<lparr>wld := w'\<rparr>))
            else (None, s1)))"

fun deep_loop ::
  "env \<Rightarrow> (string \<Rightarrow> string \<times> string) \<Rightarrow> string \<Rightarrow> row list \<Rightarrow> loop_state \<Rightarrow> string option \<times> loop_state" where
  "deep_loop e ve jobId [] s = (None, s)"
| "deep_loop e ve jobId (row # rows) s =
     (case deep_step e ve jobId row s of
        (None, s') \<Rightarrow> deep_loop e ve jobId rows s'
      | (Some err, s') \<Rightarrow> (Some err, s'))"

definition complete_fields :: "nat \<Rightarrow> tally \<Rightarrow> string \<Rightarrow> nat \<Rightarrow> job \<Rightarrow> job" where
  "complete_fields n c url t j =
     j\<lparr>status := Completed,
       processedCount := n,
       downloadUrl := Some url,
       stats := \<lparr>valid = validCount c, invalid = invalidCount c, risky = riskyCount c\<rparr>,
       completedAt := Some t\<rparr>"

text \<open>The \<^verbatim>\<open>catch\<close> block followed by the \<^verbatim>\<open>finally\<close> block.\<close>

definition catch_finally :: "env \<Rightarrow> string \<Rightarrow> string \<Rightarrow> string \<Rightarrow> world \<Rightarrow> outcome \<times> world" where
  "catch_finally e jobId filePath msg w =
     (case update_doc e jobId (\<lambda>j. j\<lparr>status := Failed, error := Some msg\<rparr>) w of
        (None, w') \<Rightarrow> (Resolved, remove_file filePath w')
      | (Some err, w') \<Rightarrow> (Rejected err, remove_file filePath w'))"

definition deep_worker ::
  "(string \<Rightarrow> string \<times> string) \<Rightarrow> env \<Rightarrow> string \<Rightarrow> string \<Rightarrow> world \<Rightarrow> outcome \<times> world" where
  "deep_worker ve e jobId filePath w =
     (let resultsFilename = results_name jobId;
          resultsPath = temp_path resultsFilename;
          w1 = w\<lparr>disk := (disk w)(resultsPath \<mapsto> File [] End)\<rparr>
      in case disk w1 filePath of
           None \<Rightarrow> (Uncaught ''ENOENT'', w1)
         | Some f \<Rightarrow>
             (let r = deep_loop e ve jobId (records f)
                        \<lparr>processed = 0,
                         counts = \<lparr>validCount = 0, invalidCount = 0, riskyCount = 0\<rparr>,
                         out = [], wld = w1\<rparr>;
                  s = snd r;
                  w2 = (wld s)\<lparr>disk := (disk (wld s))(resultsPath \<mapsto> File (format_rows (out s)) End)\<rparr>
              in case fst r of
                   Some err \<Rightarrow> catch_finally e jobId filePath err w2
                 | None \<Rightarrow>
                     (case ending f of
                        Error msg \<Rightarrow> catch_finally e jobId filePath msg w2
                      | End \<Rightarrow>
                          (case update_doc e jobId
                                  (complete_fields (processed s) (counts s)
                                     (''/api/download/'' @ resultsFilename) (clock e (writes w2)))
                                  w2 of
                             (None, w3) \<Rightarrow> (Resolved, remove_file filePath w3)
                           | (Some err, w3) \<Rightarrow> catch_finally e jobId filePath err w3))))"

definition processCsvJob_deep :: "env \<Rightarrow> string \<Rightarrow> string \<Rightarrow> world \<Rightarrow> outcome \<times> world" where
  "processCsvJob_deep = deep_worker validateEmail"

section \<open>The HTTP routes\<close>

record request =
  authorization :: "string option"
  upload_file :: "(string \<times> string) option"
  param :: string

datatype response =
    Reply nat string
  | Started string
  | Attachment string csv_file
  | Aborted

fun take_until :: "string \<Rightarrow> string \<Rightarrow> string" where
  "take_until [] sep = []"
| "take_until (c # s) sep = (if startsWith (c # s) sep then [] else c # take_until s sep)"

text \<open>\<^verbatim>\<open>authenticateUser\<close>: the user id, or the response that ends the request.\<close>

definition authenticateUser :: "env \<Rightarrow> request \<Rightarrow> response + string" where
  "authenticateUser e req =
     (case authorization req of
        None \<Rightarrow> Inl (Reply 401 ''Unauthorized'')
      | Some authHeader \<Rightarrow>
          if \<not> startsWith authHeader ''Bearer '' then Inl (Reply 401 ''Unauthorized'')
          else (case verifyIdToken e (take_until (drop 7 authHeader) ''Bearer '') of
                  None \<Rightarrow> Inl (Reply 403 ''Invalid Token'')
                | Some uid \<Rightarrow> Inr uid))"

definition initial_job :: "string \<Rightarrow> string \<Rightarrow> string \<Rightarrow> nat \<Rightarrow> job" where
  "initial_job jobId uid originalName t =
     \<lparr>jid = jobId, userId = uid, status = Processing, fileName = originalName,
      processedCount = 0, totalEmails = 0,
      stats = \<lparr>valid = 0, invalid = 0, risky = 0\<rparr>,
      createdAt = t, downloadUrl = None, error = None, completedAt = None\<rparr>"

text \<open>\<^verbatim>\<open>POST /api/upload\<close>, for either worker. The worker's promise is not
  awaited and its rejection is caught and logged, so its outcome does not reach
  the response.\<close>

definition upload ::
  "(env \<Rightarrow> string \<Rightarrow> string \<Rightarrow> world \<Rightarrow> outcome \<times> world) \<Rightarrow> env \<Rightarrow> request \<Rightarrow> world \<Rightarrow> response \<times> world" where
  "upload worker e req w =
     (case authenticateUser e req of
        Inl r \<Rightarrow> (r, w)
      | Inr uid \<Rightarrow>
          (case upload_file req of
             None \<Rightarrow> (Reply 400 ''No file uploaded'', w)
           | Some (filePath, originalName) \<Rightarrow>
               (let jobId = gen_id e (writes w) in
                case set_doc e jobId (initial_job jobId uid originalName (clock e (writes w))) w of
                  (Some err, w1) \<Rightarrow> (Reply 500 ''Internal Server Error'', remove_file filePath w1)
                | (None, w1) \<Rightarrow> (Started jobId, snd (worker e jobId filePath w1)))))"

text \<open>\<^verbatim>\<open>GET /api/download/:filename\<close>. How \<^verbatim>\<open>res.download\<close> ends is the
  transport's business and is a parameter. The second component lists the paths
  on which the file system was consulted, in order.\<close>

datatype send_result = Sent | FailedBeforeHeaders | FailedAfterHeaders

definition download :: "send_result \<Rightarrow> request \<Rightarrow> world \<Rightarrow> response \<times> string list" where
  "download sr req w =
     (let filename = param req in
      if str_includes filename ''..'' \<or> \<not> startsWith filename ''results-''
      then (Reply 403 ''Access Denied'', [])
      else
        (let filePath = temp_path filename in
         case disk w filePath of
           None \<Rightarrow> (Reply 404 ''File not found. It may have been deleted or expired.'', [filePath])
         | Some f \<Rightarrow>
             (case sr of
                Sent \<Rightarrow> (Attachment filename f, [filePath, filePath])
              | FailedBeforeHeaders \<Rightarrow> (Reply 500 ''Could not download file'', [filePath, filePath])
              | FailedAfterHeaders \<Rightarrow> (Aborted, [filePath, filePath]))))"

section \<open>Reference predicates and sample inputs\<close>

text \<open>The naming pattern \<^verbatim>\<open>results-<jobId>.csv\<close> as the specification words it,
  for comparison with the check the download route performs.\<close>

definition endsWith :: "string \<Rightarrow> string \<Rightarrow> bool" where
  "endsWith s p = startsWith (rev s) (rev p)"

definition matches_results_pattern :: "string \<Rightarrow> bool" where
  "matches_results_pattern name =
     (startsWith name ''results-'' \<and> endsWith (drop 8 name) ''.csv'')"

definition anonymous :: "string \<Rightarrow> request" where
  "anonymous name = \<lparr>authorization = None, upload_file = None, param = name\<rparr>"

definition bearer :: "string \<Rightarrow> string \<Rightarrow> request" where
  "bearer token name =
     \<lparr>authorization = Some (''Bearer '' @ token), upload_file = None, param = name\<rparr>"

definition disk_only :: "(string \<rightharpoonup> csv_file) \<Rightarrow> world" where
  "disk_only d = \<lparr>jobs = Map.empty, disk = d, writes = 0, removed = [], snapshots = []\<rparr>"

definition demo_result :: csv_file where
  "demo_result = File [[(''email'', ''a@b.com''), (''Validation Status'', ''Valid'')]] End"

text \<open>A stand-in for the validation library (an address is accepted when it
  contains \<^verbatim>\<open>@\<close>), a store that never fails, and a store whose k-th write
  fails.\<close>

definition sample_env :: env where
  "sample_env =
     \<lparr>validate = (\<lambda>s. str_includes s ''@''), store_err = (\<lambda>n. None), clock = (\<lambda>n. n),
      gen_id = (\<lambda>n. ''j1''),
      verifyIdToken = (\<lambda>t. if t = ''tok'' then Some ''u1'' else None)\<rparr>"

definition failing_env :: "nat \<Rightarrow> string \<Rightarrow> env" where
  "failing_env k msg = sample_env\<lparr>store_err := (\<lambda>n. if n = k then Some msg else None)\<rparr>"

text \<open>The state in which a worker starts: the job document as the upload route
  creates it, and the uploaded file.\<close>

definition created :: "string \<Rightarrow> string \<Rightarrow> csv_file \<Rightarrow> world" where
  "created jobId filePath f =
     \<lparr>jobs = [jobId \<mapsto> initial_job jobId ''u1'' ''list.csv'' 0], disk = [filePath \<mapsto> f],
      writes = 0, removed = [], snapshots = []\<rparr>"

definition three_rows :: "row list" where
  "three_rows = [[(''email'', ''a@b.com'')], [(''email'', ''not-an-email'')], [(''email'', [])]]"

text \<open>Names for what the workers compute inline: the test that keeps a record in
  the deep-validation loop, the sum of the three counters, and the record each
  worker writes for an input record.\<close>

definition has_email :: "row \<Rightarrow> bool" where
  "has_email row = truthy (locate_email row)"

definition tally_sum :: "tally \<Rightarrow> nat" where
  "tally_sum c = validCount c + invalidCount c + riskyCount c"

definition annotate :: "env \<Rightarrow> row \<Rightarrow> row" where
  "annotate e row =
     assign row ''Validation Status''
       (if truthy (get_prop row (emailKey row)) \<and> validate e (the (get_prop row (emailKey row)))
        then ''Valid'' else ''Invalid'')"

definition annotate_deep :: "(string \<Rightarrow> string \<times> string) \<Rightarrow> row \<Rightarrow> row" where
  "annotate_deep ve row =
     assign (assign row ''validation_status'' (fst (ve (the (locate_email row)))))
       ''validation_reason'' (snd (ve (the (locate_email row))))"

text \<open>Runs of the two workers on job \<^verbatim>\<open>j1\<close> and the upload \<^verbatim>\<open>uploads/f1\<close>.\<close>

definition simple_run :: "env \<Rightarrow> csv_file \<Rightarrow> outcome \<times> world" where
  "simple_run e f = processCsvJob e ''j1'' ''uploads/f1'' (created ''j1'' ''uploads/f1'' f)"

definition deep_run :: "env \<Rightarrow> csv_file \<Rightarrow> outcome \<times> world" where
  "deep_run e f = processCsvJob_deep e ''j1'' ''uploads/f1'' (created ''j1'' ''uploads/f1'' f)"

text \<open>The loop state after the body has counted and written one record, before
  any progress update.\<close>

definition advance :: "(string \<Rightarrow> string \<times> string) \<Rightarrow> row \<Rightarrow> loop_state \<Rightarrow> loop_state" where
  "advance ve row s =
     s\<lparr>processed := processed s + 1,
       counts := count_result (fst (ve (the (locate_email row)))) (counts s),
       out := out s @ [annotate_deep ve row]\<rparr>"

definition eleven_rows :: "row list" where
  "eleven_rows =
     map (\<lambda>a. [(''email'', a)])
       [''a0@x.org'', ''a1@x.org'', ''a2@x.org'', ''a3@x.org'', ''a4@x.org'', ''a5@x.org'',
        ''a6@x.org'', ''a7@x.org'', ''a8@x.org'', ''a9@x.org'', ''b0@x.org'']"

text \<open>An authenticated upload of \<^verbatim>\<open>uploads/f1\<close>, and the state in which the upload
  route receives it.\<close>

definition upload_request :: request where
  "upload_request =
     \<lparr>authorization = Some ''Bearer tok'', upload_file = Some (''uploads/f1'', ''list.csv''),
      param = []\<rparr>"

definition uploaded :: "csv_file \<Rightarrow> world" where
  "uploaded f = disk_only [''uploads/f1'' \<mapsto> f]"

text \<open>What a polling caller must see while a job is processing, and the document
  versions the store has held between two states.\<close>

definition unwritten :: "job \<Rightarrow> bool" where
  "unwritten j = (status j = Processing \<longrightarrow> totalEmails j = 0)"

definition written_since :: "world \<Rightarrow> world \<Rightarrow> (string \<times> job) list" where
  "written_since w w' = take (length (snapshots w') - length (snapshots w)) (snapshots w')"

definition observed_ok :: "world \<Rightarrow> string \<Rightarrow> world \<Rightarrow> bool" where
  "observed_ok w0 jobId w =
     ((\<exists>new. snapshots w = new @ snapshots w0 \<and> (\<forall>v \<in> set new. unwritten (snd v)))
      \<and> (\<forall>j. jobs w jobId = Some j \<longrightarrow> unwritten j))"

text \<open>A store that rejects every write, a job whose uploaded file is not on disk,
  a two-column input, and an input whose first record is empty.\<close>

definition down_env :: "string \<Rightarrow> env" where
  "down_env msg = sample_env\<lparr>store_err := (\<lambda>n. Some msg)\<rparr>"

definition orphaned :: "string \<Rightarrow> world" where
  "orphaned jobId =
     \<lparr>jobs = [jobId \<mapsto> initial_job jobId ''u1'' ''list.csv'' 0], disk = Map.empty,
      writes = 0, removed = [], snapshots = []\<rparr>"

definition contacts :: "row list" where
  "contacts =
     [[(''name'', ''Ann''), (''email'', ''ann@x.org'')],
      [(''name'', ''Bob''), (''email'', ''bob-at-x'')]]"

definition ragged_rows :: "row list" where
  "ragged_rows = [[], [(''email'', ''a@b.com'')]]"

section \<open>String helpers agree with their JavaScript meaning\<close>

lemma startsWith_iff: "startsWith s p \<longleftrightarrow> (\<exists>t. s = p @ t)"
  by (induction s p rule: startsWith.induct) auto

lemma str_includes_iff: "str_includes s p \<longleftrightarrow> (\<exists>a b. s = a @ p @ b)"
proof (induction s)
  case Nil
  then show ?case by auto
next
  case (Cons c s)
  show ?case
  proof
    assume "str_includes (c # s) p"
    then consider "startsWith (c # s) p" | "str_includes s p" by auto
    then show "\<exists>a b. c # s = a @ p @ b"
    proof cases
      case 1
      then obtain t where "c # s = p @ t" using startsWith_iff by blast
      then have "c # s = [] @ p @ t" by simp
      then show ?thesis by blast
    next
      case 2
      then obtain a b where "s = a @ p @ b" using Cons.IH by blast
      then have "c # s = (c # a) @ p @ b" by simp
      then show ?thesis by blast
    qed
  next
    assume "\<exists>a b. c # s = a @ p @ b"
    then obtain a b where ab: "c # s = a @ p @ b" by blast
    show "str_includes (c # s) p"
    proof (cases a)
      case Nil
      with ab have "startsWith (c # s) p" using startsWith_iff by auto
      then show ?thesis by simp
    next
      case (Cons x a')
      with ab have "s = a' @ p @ b" by simp
      then have "str_includes s p" using Cons.IH by blast
      then show ?thesis by simp
    qed
  qed
qed

section \<open>The download route\<close>

text \<open>
  C5, amended. A requested name that contains \<^verbatim>\<open>..\<close> or does not start with
  \<^verbatim>\<open>results-\<close> is answered 403 Access Denied without any file-system access;
  a name that passes this check and names no existing file under the temp
  directory is answered 404.
\<close>

theorem download_gate:
  "(str_includes (param req) ''..'' \<or> \<not> startsWith (param req) ''results-''
      \<longrightarrow> download sr req w = (Reply 403 ''Access Denied'', []))
   \<and> (\<not> str_includes (param req) ''..'' \<and> startsWith (param req) ''results-''
        \<and> disk w (temp_path (param req)) = None
      \<longrightarrow> fst (download sr req w)
          = Reply 404 ''File not found. It may have been deleted or expired.'')"
  by (simp add: download_def Let_def)

theorem download_gate_witness:
  "download Sent (anonymous ''../.env'') (disk_only Map.empty) = (Reply 403 ''Access Denied'', [])
   \<and> download Sent (anonymous ''report.csv'') (disk_only Map.empty)
       = (Reply 403 ''Access Denied'', [])
   \<and> fst (download Sent (anonymous ''results-gone.csv'') (disk_only Map.empty))
       = Reply 404 ''File not found. It may have been deleted or expired.''"
  using download_gate [where req = "anonymous ''../.env''" and sr = Sent and w = "disk_only Map.empty"]
    download_gate [where req = "anonymous ''report.csv''" and sr = Sent and w = "disk_only Map.empty"]
    download_gate [where req = "anonymous ''results-gone.csv''" and sr = Sent
      and w = "disk_only Map.empty"]
  by (simp add: anonymous_def disk_only_def temp_path_def)

text \<open>
  C5 as stated asks for a denial of every name outside the pattern
  \<^verbatim>\<open>results-<jobId>.csv\<close>. The name \<^verbatim>\<open>results-x.txt\<close> is outside the pattern,
  yet the route consults the file system for it: it answers 404 when the file is
  missing and serves the file when it exists.
\<close>

theorem download_pattern_counterexample:
  "\<not> matches_results_pattern ''results-x.txt''
   \<and> download Sent (anonymous ''results-x.txt'') (disk_only Map.empty)
       = (Reply 404 ''File not found. It may have been deleted or expired.'',
          [''temp/results-x.txt''])
   \<and> download Sent (anonymous ''results-x.txt'')
         (disk_only [''temp/results-x.txt'' \<mapsto> File [] End])
       = (Attachment ''results-x.txt'' (File [] End),
          [''temp/results-x.txt'', ''temp/results-x.txt''])"
  by (simp add: matches_results_pattern_def endsWith_def download_def anonymous_def disk_only_def
      temp_path_def Let_def)

text \<open>
  C9. The download route reads nothing of the request but the file name, and
  nothing of the job collection: two requests for the same name get the same
  response whatever their credentials, whoever owns the job, and every existing
  file whose name passes the filter is served to the requester, authenticated
  or not.
\<close>

theorem download_ignores_requester:
  "(param ra = param rb \<longrightarrow> download sr ra w = download sr rb w)
   \<and> download sr r (w\<lparr>jobs := js\<rparr>) = download sr r w
   \<and> (\<not> str_includes (param r) ''..'' \<and> startsWith (param r) ''results-''
        \<and> disk w (temp_path (param r)) = Some f
      \<longrightarrow> fst (download Sent r w) = Attachment (param r) f)"
  by (simp add: download_def Let_def)

theorem download_ignores_requester_witness:
  "download Sent (anonymous ''results-j1.csv'') (disk_only [''temp/results-j1.csv'' \<mapsto> demo_result])
     = download Sent (bearer ''token-of-another-user'' ''results-j1.csv'')
         (disk_only [''temp/results-j1.csv'' \<mapsto> demo_result])
   \<and> fst (download Sent (anonymous ''results-j1.csv'')
            (disk_only [''temp/results-j1.csv'' \<mapsto> demo_result]))
     = Attachment ''results-j1.csv'' demo_result"
proof -
  let ?w = "disk_only [''temp/results-j1.csv'' \<mapsto> demo_result]"
  let ?a = "anonymous ''results-j1.csv''"
  let ?b = "bearer ''token-of-another-user'' ''results-j1.csv''"
  have same: "param ?a = param ?b"
    by (simp add: anonymous_def bearer_def)
  have passes: "\<not> str_includes (param ?a) ''..'' \<and> startsWith (param ?a) ''results-''
      \<and> disk ?w (temp_path (param ?a)) = Some demo_result"
    by (simp add: anonymous_def disk_only_def temp_path_def)
  have name: "param ?a = ''results-j1.csv''"
    by (simp add: anonymous_def)
  from download_ignores_requester [where ra = ?a and rb = ?b and sr = Sent and w = ?w
      and r = ?a and f = demo_result] same passes
  have "download Sent ?a ?w = download Sent ?b ?w
      \<and> fst (download Sent ?a ?w) = Attachment (param ?a) demo_result"
    by blast
  with name show ?thesis
    by auto
qed

section \<open>Counting in the two workers\<close>

lemmas eval_defs =
  processCsvJob_def processCsvJob_deep_def deep_worker_def deep_step_def catch_finally_def
  update_doc_def set_doc_def remove_file_def final_fields_def complete_fields_def
  progress_fields_def count_result_def validateEmail_def on_data_def emailKey_def get_prop_def
  locate_email_def first_value_def js_or_def truthy_def toLowerCase_def lower_char_def
  temp_path_def results_name_def initial_job_def created_def sample_env_def failing_env_def
  simple_run_def deep_run_def three_rows_def format_rows_def cell_def Let_def

lemma on_data_tally:
  "tally_sum (fst (on_data e st row)) = tally_sum (fst st) + 1
   \<and> riskyCount (fst (on_data e st row)) = riskyCount (fst st)
   \<and> snd (on_data e st row) = snd st @ [annotate e row]"
  by (simp add: on_data_def tally_sum_def annotate_def Let_def)

lemma foldl_on_data_tally:
  "tally_sum (fst (foldl (on_data e) st rows)) = tally_sum (fst st) + length rows
   \<and> riskyCount (fst (foldl (on_data e) st rows)) = riskyCount (fst st)
   \<and> snd (foldl (on_data e) st rows) = snd st @ map (annotate e) rows"
proof (induction rows arbitrary: st)
  case Nil
  then show ?case by simp
next
  case (Cons row rows)
  show ?case
    using Cons.IH [of "on_data e st row"] on_data_tally [of e st row] by simp
qed

lemma update_doc_result:
  assumes "update_doc e jobId upd w = (res, w')"
  shows "disk w' = disk w" and "removed w' = removed w" and "writes w' = Suc (writes w)"
    and "res = None \<Longrightarrow> \<exists>j. jobs w jobId = Some j \<and> jobs w' = (jobs w)(jobId \<mapsto> upd j)
            \<and> snapshots w' = (jobId, upd j) # snapshots w"
    and "res \<noteq> None \<Longrightarrow> jobs w' = jobs w \<and> snapshots w' = snapshots w"
  using assms by (auto simp: update_doc_def Let_def split: option.splits)

lemma worker_completed:
  assumes j0: "jobs w jobId = Some j0" "status j0 = Processing"
    and f: "disk w filePath = Some f" "filePath \<noteq> temp_path (results_name jobId)"
    and run: "processCsvJob e jobId filePath w = (r, w')"
    and j: "jobs w' jobId = Some j" "status j = Completed"
  shows "valid (stats j) + invalid (stats j) + risky (stats j) = processedCount j
    \<and> processedCount j = totalEmails j \<and> totalEmails j = length (records f)"
proof -
  define st where
    "st = foldl (on_data e) (\<lparr>validCount = 0, invalidCount = 0, riskyCount = 0\<rparr>, []) (records f)"
  have sum: "tally_sum (fst st) = length (records f)"
    using foldl_on_data_tally
      [of e "(\<lparr>validCount = 0, invalidCount = 0, riskyCount = 0\<rparr>, [])" "records f"]
    by (simp add: st_def tally_sum_def)
  show ?thesis
    using j0 f run j sum
    by (auto simp: processCsvJob_def Let_def update_doc_def remove_file_def final_fields_def
        tally_sum_def st_def split: ending.splits option.splits if_splits prod.splits)
qed

lemma count_result_sum: "tally_sum (count_result st c) = tally_sum c + 1"
  by (simp add: count_result_def tally_sum_def)

lemma deep_step_frame:
  assumes "deep_step e ve jobId row s = (r, s')"
  shows "disk (wld s') = disk (wld s)" and "removed (wld s') = removed (wld s)"
    and "map_option status (jobs (wld s') i) = map_option status (jobs (wld s) i)"
    and "map_option totalEmails (jobs (wld s') i) = map_option totalEmails (jobs (wld s) i)"
  using assms
  by (auto simp: deep_step_def Let_def update_doc_def progress_fields_def
      split: if_splits option.splits prod.splits)

lemma deep_step_progress:
  assumes "deep_step e ve jobId row s = (None, s')"
  shows "processed s' = processed s + (if has_email row then 1 else 0)"
    and "tally_sum (counts s') = tally_sum (counts s) + (if has_email row then 1 else 0)"
    and "out s' = out s @ (if has_email row then [annotate_deep ve row] else [])"
  using assms
  by (auto simp: deep_step_def Let_def has_email_def annotate_deep_def count_result_sum
      split: if_splits option.splits prod.splits)

lemma deep_loop_frame:
  assumes "deep_loop e ve jobId rows s = (r, s')"
  shows "disk (wld s') = disk (wld s) \<and> removed (wld s') = removed (wld s)
    \<and> map_option status (jobs (wld s') i) = map_option status (jobs (wld s) i)
    \<and> map_option totalEmails (jobs (wld s') i) = map_option totalEmails (jobs (wld s) i)"
  using assms
proof (induction rows arbitrary: s)
  case Nil
  then show ?case by simp
next
  case (Cons row rows)
  obtain r1 s1 where step: "deep_step e ve jobId row s = (r1, s1)"
    by (cases "deep_step e ve jobId row s")
  note fr = deep_step_frame [OF step]
  show ?case
  proof (cases r1)
    case None
    with step Cons.prems have "deep_loop e ve jobId rows s1 = (r, s')" by simp
    from Cons.IH [OF this] fr show ?thesis by simp
  next
    case (Some err)
    with step Cons.prems have "s' = s1" by simp
    with fr show ?thesis by simp
  qed
qed

lemma deep_loop_progress:
  assumes "deep_loop e ve jobId rows s = (None, s')"
  shows "processed s' = processed s + length (filter has_email rows)
    \<and> tally_sum (counts s') = tally_sum (counts s) + length (filter has_email rows)
    \<and> out s' = out s @ map (annotate_deep ve) (filter has_email rows)"
  using assms
proof (induction rows arbitrary: s)
  case Nil
  then show ?case by simp
next
  case (Cons row rows)
  obtain r1 s1 where step: "deep_step e ve jobId row s = (r1, s1)"
    by (cases "deep_step e ve jobId row s")
  show ?case
  proof (cases r1)
    case None
    with step Cons.prems have rest: "deep_loop e ve jobId rows s1 = (None, s')" by simp
    from step None have "deep_step e ve jobId row s = (None, s1)" by simp
    note pr = deep_step_progress [OF this]
    from Cons.IH [OF rest] pr show ?thesis by simp
  next
    case (Some err)
    with step Cons.prems show ?thesis by simp
  qed
qed

lemma catch_finally_status:
  assumes "catch_finally e jobId filePath msg w = (r, w')"
    and "jobs w jobId = Some j0" and "jobs w' jobId = Some j"
  shows "status j = Failed \<and> error j = Some msg \<and> r = Resolved
    \<or> j = j0 \<and> (\<exists>err. r = Rejected err)"
  using assms
  by (auto simp: catch_finally_def update_doc_def remove_file_def Let_def
      split: option.splits prod.splits)

lemma catch_finally_removes:
  assumes "catch_finally e jobId filePath msg w = (r, w')"
  shows "removed w' = filePath # removed w \<and> disk w' = (disk w)(filePath := None)"
  using assms
  by (auto simp: catch_finally_def update_doc_def remove_file_def Let_def
      split: option.splits prod.splits)

lemma deep_completed:
  assumes j0: "jobs w jobId = Some j0" "status j0 = Processing"
    and f: "disk w filePath = Some f" "filePath \<noteq> temp_path (results_name jobId)"
    and run: "deep_worker ve e jobId filePath w = (r, w')"
    and j: "jobs w' jobId = Some j" "status j = Completed"
  shows "valid (stats j) + invalid (stats j) + risky (stats j) = processedCount j
    \<and> processedCount j = length (filter has_email (records f))
    \<and> disk w' (temp_path (results_name jobId))
        = Some (File (format_rows (map (annotate_deep ve) (filter has_email (records f)))) End)"
proof -
  define w1 where "w1 = w\<lparr>disk := (disk w)(temp_path (results_name jobId) \<mapsto> File [] End)\<rparr>"
  define s0 where
    "s0 = \<lparr>processed = 0, counts = \<lparr>validCount = 0, invalidCount = 0, riskyCount = 0\<rparr>,
           out = [], wld = w1\<rparr>"
  obtain thrown s where loop: "deep_loop e ve jobId (records f) s0 = (thrown, s)"
    by (cases "deep_loop e ve jobId (records f) s0")
  define w2 where
    "w2 = (wld s)\<lparr>disk := (disk (wld s))(temp_path (results_name jobId) \<mapsto> File (format_rows (out s)) End)\<rparr>"
  have rd: "disk w1 filePath = Some f"
    using f by (simp add: w1_def)
  from deep_loop_frame [OF loop, of jobId] j0
  obtain j2 where j2: "jobs w2 jobId = Some j2" "status j2 = Processing"
    by (auto simp: w2_def s0_def w1_def)
  have not_caught: False if c: "catch_finally e jobId filePath msg wa = (r, w')"
      and a: "jobs wa jobId = Some ja" "status ja = Processing" for msg wa ja
    using catch_finally_status [OF c a(1) j(1)] a(2) j(2) by auto
  show ?thesis
  proof (cases thrown)
    case (Some err)
    with run rd loop have "catch_finally e jobId filePath err w2 = (r, w')"
      by (simp add: deep_worker_def Let_def w1_def s0_def w2_def)
    from not_caught [OF this j2] show ?thesis ..
  next
    case None
    note pr = deep_loop_progress [OF loop [unfolded None]]
    show ?thesis
    proof (cases "ending f")
      case (Error msg)
      with run rd loop None have "catch_finally e jobId filePath msg w2 = (r, w')"
        by (simp add: deep_worker_def Let_def w1_def s0_def w2_def)
      from not_caught [OF this j2] show ?thesis ..
    next
      case End
      let ?upd = "complete_fields (processed s) (counts s)
                    (''/api/download/'' @ results_name jobId) (clock e (writes w2))"
      obtain res w3 where up: "update_doc e jobId ?upd w2 = (res, w3)"
        by (cases "update_doc e jobId ?upd w2")
      note ur = update_doc_result [OF up]
      show ?thesis
      proof (cases res)
        case (Some err)
        with run rd loop None End up have c: "catch_finally e jobId filePath err w3 = (r, w')"
          by (simp add: deep_worker_def Let_def w1_def s0_def w2_def)
        from ur(5) Some j2 have "jobs w3 jobId = Some j2" by simp
        from not_caught [OF c this j2(2)] show ?thesis ..
      next
        case None
        with run rd loop \<open>thrown = None\<close> End up have w': "w' = remove_file filePath w3"
          by (simp add: deep_worker_def Let_def w1_def s0_def w2_def)
        from ur(4) [OF None] j2 have "jobs w3 jobId = Some (?upd j2)" by auto
        with w' j have jeq: "j = ?upd j2" by (simp add: remove_file_def)
        have dk: "disk w' (temp_path (results_name jobId)) = Some (File (format_rows (out s)) End)"
          using w' ur(1) f(2) by (simp add: remove_file_def w2_def)
        from pr jeq dk show ?thesis
          by (simp add: complete_fields_def s0_def tally_sum_def)
      qed
    qed
  qed
qed

text \<open>
  C1, amended. When a job that is processing reaches the completed state, the
  persisted counts satisfy \<open>valid + invalid + risky = processedCount\<close> in both
  workers. In the syntax-only worker this value also equals \<open>totalEmails\<close> and
  the number of records of the input stream. In the deep-validation worker it
  equals the number of input records whose located email value is non-empty:
  the loop skips the others.
\<close>

theorem completed_counts:
  assumes "jobs w jobId = Some j0" and "status j0 = Processing"
    and "disk w filePath = Some f" and "filePath \<noteq> temp_path (results_name jobId)"
    and "jobs w' jobId = Some j" and "status j = Completed"
  shows "(processCsvJob e jobId filePath w = (r, w') \<longrightarrow>
            valid (stats j) + invalid (stats j) + risky (stats j) = processedCount j
            \<and> processedCount j = totalEmails j \<and> totalEmails j = length (records f))
       \<and> (processCsvJob_deep e jobId filePath w = (r, w') \<longrightarrow>
            valid (stats j) + invalid (stats j) + risky (stats j) = processedCount j
            \<and> processedCount j = length (filter has_email (records f)))"
proof (intro conjI impI)
  assume run: "processCsvJob e jobId filePath w = (r, w')"
  from worker_completed [OF assms(1-4) run assms(5,6)]
  show "valid (stats j) + invalid (stats j) + risky (stats j) = processedCount j"
    and "processedCount j = totalEmails j" and "totalEmails j = length (records f)"
    by simp_all
next
  assume run: "processCsvJob_deep e jobId filePath w = (r, w')"
  then have "deep_worker validateEmail e jobId filePath w = (r, w')"
    by (simp add: processCsvJob_deep_def)
  from deep_completed [OF assms(1-4) this assms(5,6)]
  show "valid (stats j) + invalid (stats j) + risky (stats j) = processedCount j"
    and "processedCount j = length (filter has_email (records f))"
    by simp_all
qed

theorem completed_counts_witness:
  "map_option status (jobs (snd (simple_run sample_env (File three_rows End))) ''j1'') = Some Completed
   \<and> map_option (\<lambda>j. (valid (stats j) + invalid (stats j) + risky (stats j), processedCount j,
                       totalEmails j))
        (jobs (snd (simple_run sample_env (File three_rows End))) ''j1'') = Some (3, 3, 3)
   \<and> length three_rows = 3
   \<and> map_option status (jobs (snd (deep_run sample_env (File three_rows End))) ''j1'') = Some Completed
   \<and> map_option (\<lambda>j. (valid (stats j) + invalid (stats j) + risky (stats j), processedCount j))
        (jobs (snd (deep_run sample_env (File three_rows End))) ''j1'') = Some (2, 2)
   \<and> length (filter has_email three_rows) = 2"
proof -
  let ?f = "File three_rows End"
  let ?w = "created ''j1'' ''uploads/f1'' ?f"
  obtain r w' where run: "processCsvJob sample_env ''j1'' ''uploads/f1'' ?w = (r, w')"
    by (cases "processCsvJob sample_env ''j1'' ''uploads/f1'' ?w")
  obtain rd wd where rund: "processCsvJob_deep sample_env ''j1'' ''uploads/f1'' ?w = (rd, wd)"
    by (cases "processCsvJob_deep sample_env ''j1'' ''uploads/f1'' ?w")
  have start: "jobs ?w ''j1'' = Some (initial_job ''j1'' ''u1'' ''list.csv'' 0)"
      "status (initial_job ''j1'' ''u1'' ''list.csv'' 0) = Processing"
      "disk ?w ''uploads/f1'' = Some ?f" "''uploads/f1'' \<noteq> temp_path (results_name ''j1'')"
    by (simp_all add: created_def initial_job_def temp_path_def)
  have "\<exists>j. jobs (snd (simple_run sample_env ?f)) ''j1'' = Some j \<and> status j = Completed"
    by (simp add: eval_defs)
  then obtain j where j: "jobs w' ''j1'' = Some j" "status j = Completed"
    using run by (auto simp: simple_run_def)
  have "\<exists>j. jobs (snd (deep_run sample_env ?f)) ''j1'' = Some j \<and> status j = Completed"
    by (simp add: eval_defs)
  then obtain jd where jd: "jobs wd ''j1'' = Some jd" "status jd = Completed"
    using rund by (auto simp: deep_run_def)
  from completed_counts [OF start j, of sample_env r] run
  have simple: "valid (stats j) + invalid (stats j) + risky (stats j) = processedCount j
      \<and> processedCount j = totalEmails j \<and> totalEmails j = length (records ?f)"
    by blast
  from completed_counts [OF start jd, of sample_env rd] rund
  have deep: "valid (stats jd) + invalid (stats jd) + risky (stats jd) = processedCount jd
      \<and> processedCount jd = length (filter has_email (records ?f))"
    by blast
  have len: "length three_rows = 3" "length (filter has_email three_rows) = 2"
    by (simp_all add: three_rows_def has_email_def locate_email_def js_or_def truthy_def
        first_value_def)
  from simple deep len j jd run rund show ?thesis
    by (simp add: simple_run_def deep_run_def)
qed

text \<open>
  C1 as stated fails in the deep-validation worker: on the three-record input
  whose third record has an empty email the job completes with
  \<open>processedCount = 2\<close> and \<open>totalEmails = 0\<close>.
\<close>

theorem completed_counts_counterexample:
  "map_option status (jobs (snd (deep_run sample_env (File three_rows End))) ''j1'') = Some Completed
   \<and> map_option processedCount (jobs (snd (deep_run sample_env (File three_rows End))) ''j1'') = Some 2
   \<and> map_option totalEmails (jobs (snd (deep_run sample_env (File three_rows End))) ''j1'') = Some 0
   \<and> length (records (File three_rows End)) = 3"
  by (simp add: eval_defs)

section \<open>Locating and classifying the email of one record\<close>

lemma toLowerCase_includes_iff:
  "str_includes (toLowerCase k) p \<longleftrightarrow> (\<exists>a m b. k = a @ m @ b \<and> toLowerCase m = p)"
proof
  assume "str_includes (toLowerCase k) p"
  then obtain a' b' where "map lower_char k = a' @ p @ b'"
    unfolding str_includes_iff toLowerCase_def by blast
  then have "\<exists>us vs. k = us @ vs \<and> a' = map lower_char us \<and> p @ b' = map lower_char vs"
    by (simp only: map_eq_append_conv)
  then obtain a vs where a: "k = a @ vs" and vs: "p @ b' = map lower_char vs"
    by blast
  from vs have "\<exists>m b. vs = m @ b \<and> p = map lower_char m \<and> b' = map lower_char b"
    by (simp only: append_eq_map_conv)
  then obtain m b where "vs = m @ b" "p = map lower_char m"
    by blast
  with a have "k = a @ m @ b" "map lower_char m = p"
    by simp_all
  then show "\<exists>a m b. k = a @ m @ b \<and> toLowerCase m = p"
    unfolding toLowerCase_def by blast
next
  assume "\<exists>a m b. k = a @ m @ b \<and> toLowerCase m = p"
  then obtain a m b where "k = a @ m @ b" "toLowerCase m = p" by blast
  then have "toLowerCase k = toLowerCase a @ p @ toLowerCase b"
    by (simp add: toLowerCase_def)
  then show "str_includes (toLowerCase k) p"
    unfolding str_includes_iff by blast
qed

lemma find_first_match:
  assumes "\<forall>x \<in> set pre. \<not> P x" and "P k"
  shows "find P (pre @ k # post) = Some k"
  using assms by (induction pre) auto

lemma find_no_match:
  assumes "\<forall>x \<in> set xs. \<not> P x"
  shows "find P xs = None"
  using assms by (induction xs) auto

lemma map_of_first_key:
  assumes "k \<notin> fst ` set pre"
  shows "map_of (pre @ (k, v) # post) k = Some v"
  using assms by (induction pre) auto

text \<open>
  C2, amended. In the syntax-only worker a record whose located email value is
  absent or empty is classified Invalid: it is counted in \<open>invalidCount\<close> and
  written to the output with status Invalid. On the three-record input
  \<open>[a@b.com, not-an-email, <empty>]\<close>, with a validator that accepts the first
  address and rejects the second, the job completes with stats
  \<open>{valid: 1, invalid: 2, risky: 0}\<close>, \<open>processedCount = 3\<close> and three output
  records. In the deep-validation worker such a record is skipped: the loop body
  leaves the counters, the output and the store as they were.
\<close>

theorem empty_email_invalid:
  "(\<not> truthy (get_prop row (emailKey row)) \<longrightarrow>
      on_data e (c, rs) row
        = (c\<lparr>invalidCount := invalidCount c + 1\<rparr>,
           rs @ [assign row ''Validation Status'' ''Invalid'']))
   \<and> (validate e ''a@b.com'' \<and> \<not> validate e ''not-an-email'' \<and> store_err e 0 = None \<longrightarrow>
        fst (simple_run e (File three_rows End)) = Resolved
        \<and> map_option (\<lambda>j. (status j, stats j, processedCount j))
             (jobs (snd (simple_run e (File three_rows End))) ''j1'')
           = Some (Completed, \<lparr>valid = 1, invalid = 2, risky = 0\<rparr>, 3)
        \<and> disk (snd (simple_run e (File three_rows End))) ''temp/results-j1.csv''
           = Some (File [[(''email'', ''a@b.com''), (''Validation Status'', ''Valid'')],
                         [(''email'', ''not-an-email''), (''Validation Status'', ''Invalid'')],
                         [(''email'', []), (''Validation Status'', ''Invalid'')]] End))
   \<and> (\<not> truthy (locate_email row) \<longrightarrow> deep_step e ve jobId row s = (None, s))"
proof (intro conjI impI)
  assume "\<not> truthy (get_prop row (emailKey row))"
  then show "on_data e (c, rs) row
      = (c\<lparr>invalidCount := invalidCount c + 1\<rparr>, rs @ [assign row ''Validation Status'' ''Invalid''])"
    by (simp add: on_data_def Let_def)
next
  assume "\<not> truthy (locate_email row)"
  then show "deep_step e ve jobId row s = (None, s)"
    by (simp add: deep_step_def Let_def)
next
  assume a: "validate e ''a@b.com'' \<and> \<not> validate e ''not-an-email'' \<and> store_err e 0 = None"
  have key: "emailKey [(''email'', v)] = Some ''email''" for v
    by (simp add: emailKey_def toLowerCase_def lower_char_def)
  from a show "fst (simple_run e (File three_rows End)) = Resolved"
    by (simp add: simple_run_def processCsvJob_def created_def three_rows_def on_data_def key
        get_prop_def truthy_def update_doc_def temp_path_def results_name_def Let_def)
  from a show "map_option (\<lambda>j. (status j, stats j, processedCount j))
       (jobs (snd (simple_run e (File three_rows End))) ''j1'')
      = Some (Completed, \<lparr>valid = 1, invalid = 2, risky = 0\<rparr>, 3)"
    by (simp add: simple_run_def processCsvJob_def created_def three_rows_def on_data_def key
        get_prop_def truthy_def update_doc_def temp_path_def results_name_def Let_def
        final_fields_def remove_file_def initial_job_def)
  from a show "disk (snd (simple_run e (File three_rows End))) ''temp/results-j1.csv''
      = Some (File [[(''email'', ''a@b.com''), (''Validation Status'', ''Valid'')],
                    [(''email'', ''not-an-email''), (''Validation Status'', ''Invalid'')],
                    [(''email'', []), (''Validation Status'', ''Invalid'')]] End)"
    by (simp add: simple_run_def processCsvJob_def created_def three_rows_def on_data_def key
        get_prop_def truthy_def update_doc_def temp_path_def results_name_def Let_def
        final_fields_def remove_file_def initial_job_def format_rows_def cell_def)
qed

theorem empty_email_invalid_witness:
  "on_data sample_env (\<lparr>validCount = 1, invalidCount = 1, riskyCount = 0\<rparr>, []) [(''email'', [])]
     = (\<lparr>validCount = 1, invalidCount = 2, riskyCount = 0\<rparr>,
        [[(''email'', []), (''Validation Status'', ''Invalid'')]])
   \<and> fst (simple_run sample_env (File three_rows End)) = Resolved
   \<and> map_option (\<lambda>j. (status j, stats j, processedCount j))
        (jobs (snd (simple_run sample_env (File three_rows End))) ''j1'')
      = Some (Completed, \<lparr>valid = 1, invalid = 2, risky = 0\<rparr>, 3)
   \<and> map_option (\<lambda>f. length (records f))
        (disk (snd (simple_run sample_env (File three_rows End))) ''temp/results-j1.csv'') = Some 3
   \<and> deep_step sample_env validateEmail ''j1'' [(''email'', [])]
        \<lparr>processed = 2, counts = \<lparr>validCount = 0, invalidCount = 0, riskyCount = 2\<rparr>, out = [],
         wld = created ''j1'' ''uploads/f1'' (File three_rows End)\<rparr>
      = (None, \<lparr>processed = 2, counts = \<lparr>validCount = 0, invalidCount = 0, riskyCount = 2\<rparr>,
                out = [], wld = created ''j1'' ''uploads/f1'' (File three_rows End)\<rparr>)"
proof -
  let ?row = "[(''email'', [])] :: row"
  let ?c = "\<lparr>validCount = 1, invalidCount = 1, riskyCount = 0\<rparr>"
  let ?s = "\<lparr>processed = 2, counts = \<lparr>validCount = 0, invalidCount = 0, riskyCount = 2\<rparr>,
             out = [], wld = created ''j1'' ''uploads/f1'' (File three_rows End)\<rparr>"
  have absent: "\<not> truthy (get_prop ?row (emailKey ?row))" "\<not> truthy (locate_email ?row)"
    by (simp_all add: get_prop_def emailKey_def toLowerCase_def lower_char_def truthy_def
        locate_email_def js_or_def first_value_def)
  have lib: "validate sample_env ''a@b.com'' \<and> \<not> validate sample_env ''not-an-email''
      \<and> store_err sample_env 0 = None"
    by (simp add: sample_env_def)
  note t = empty_email_invalid [where row = ?row and e = sample_env and c = ?c and rs = "[]"
      and ve = validateEmail and jobId = "''j1''" and s = ?s]
  from t absent(1) have one: "on_data sample_env (?c, []) ?row
      = (?c\<lparr>invalidCount := invalidCount ?c + 1\<rparr>, [] @ [assign ?row ''Validation Status'' ''Invalid''])"
    by blast
  from t lib have two: "fst (simple_run sample_env (File three_rows End)) = Resolved
      \<and> map_option (\<lambda>j. (status j, stats j, processedCount j))
           (jobs (snd (simple_run sample_env (File three_rows End))) ''j1'')
         = Some (Completed, \<lparr>valid = 1, invalid = 2, risky = 0\<rparr>, 3)
      \<and> disk (snd (simple_run sample_env (File three_rows End))) ''temp/results-j1.csv''
         = Some (File [[(''email'', ''a@b.com''), (''Validation Status'', ''Valid'')],
                       [(''email'', ''not-an-email''), (''Validation Status'', ''Invalid'')],
                       [(''email'', []), (''Validation Status'', ''Invalid'')]] End)"
    by blast
  from t absent(2) have three: "deep_step sample_env validateEmail ''j1'' ?row ?s = (None, ?s)"
    by blast
  from one two three show ?thesis
    by simp
qed

text \<open>
  C2 as stated fails in the deep-validation worker: on the same three-record
  input the record with the empty email is neither written nor counted, and no
  record is classified Invalid.
\<close>

theorem empty_email_counterexample:
  "map_option status (jobs (snd (deep_run sample_env (File three_rows End))) ''j1'')
     = Some Completed
   \<and> map_option stats (jobs (snd (deep_run sample_env (File three_rows End))) ''j1'')
     = Some \<lparr>valid = 0, invalid = 0, risky = 2\<rparr>
   \<and> map_option processedCount (jobs (snd (deep_run sample_env (File three_rows End))) ''j1'')
     = Some 2
   \<and> disk (snd (deep_run sample_env (File three_rows End))) ''temp/results-j1.csv''
     = Some (File [[(''email'', ''a@b.com''), (''validation_status'', ''Risky''),
                    (''validation_reason'', ''Mock Logic'')],
                   [(''email'', ''not-an-email''), (''validation_status'', ''Risky''),
                    (''validation_reason'', ''Mock Logic'')]] End)"
  by (simp add: eval_defs)

text \<open>
  C6, amended. The syntax-only worker takes the value of the first column, in
  key order, whose lower-cased name contains \<^verbatim>\<open>email\<close>; when no column name
  does, it has no fallback to the first column: it reads the property named
  \<^verbatim>\<open>undefined\<close>, so the email is absent unless a column has that very name.
  The deep-validation worker takes the value of the column named exactly
  \<^verbatim>\<open>email\<close> if it is non-empty, else that of the column named exactly
  \<^verbatim>\<open>Email\<close> if it is non-empty, else the value of the first column.
\<close>

theorem locate_email_column:
  "(row = pre @ (k, v) # post \<and> str_includes (toLowerCase k) ''email''
      \<and> (\<forall>k' \<in> fst ` set pre. \<not> str_includes (toLowerCase k') ''email'')
      \<longrightarrow> get_prop row (emailKey row) = Some v)
   \<and> ((\<forall>k' \<in> fst ` set row. \<not> str_includes (toLowerCase k') ''email'')
      \<longrightarrow> get_prop row (emailKey row) = map_of row ''undefined'')
   \<and> locate_email row
       = (if truthy (map_of row ''email'') then map_of row ''email''
          else if truthy (map_of row ''Email'') then map_of row ''Email''
          else first_value row)"
proof (intro conjI impI)
  assume a: "row = pre @ (k, v) # post \<and> str_includes (toLowerCase k) ''email''
      \<and> (\<forall>k' \<in> fst ` set pre. \<not> str_includes (toLowerCase k') ''email'')"
  then have "find (\<lambda>k. str_includes (toLowerCase k) ''email'') (map fst pre @ k # map fst post)
      = Some k"
    by (intro find_first_match) auto
  with a have key: "emailKey row = Some k"
    by (simp add: emailKey_def)
  from a have "k \<notin> fst ` set pre" by blast
  from map_of_first_key [OF this] a have "map_of row k = Some v" by simp
  with key show "get_prop row (emailKey row) = Some v"
    by (simp add: get_prop_def)
next
  assume "\<forall>k' \<in> fst ` set row. \<not> str_includes (toLowerCase k') ''email''"
  then have "find (\<lambda>k. str_includes (toLowerCase k) ''email'') (map fst row) = None"
    by (intro find_no_match) auto
  then show "get_prop row (emailKey row) = map_of row ''undefined''"
    by (simp add: emailKey_def get_prop_def)
next
  show "locate_email row
       = (if truthy (map_of row ''email'') then map_of row ''email''
          else if truthy (map_of row ''Email'') then map_of row ''Email''
          else first_value row)"
    by (simp add: locate_email_def js_or_def)
qed

theorem locate_email_column_witness:
  "get_prop [(''name'', ''Ann''), (''Work E-MAIL / EMAIL'', ''ann@x.org''), (''email'', ''other'')]
     (emailKey [(''name'', ''Ann''), (''Work E-MAIL / EMAIL'', ''ann@x.org''), (''email'', ''other'')])
     = Some ''ann@x.org''
   \<and> get_prop [(''name'', ''Ann''), (''contact'', ''ann@x.org'')]
       (emailKey [(''name'', ''Ann''), (''contact'', ''ann@x.org'')]) = None"
proof -
  let ?pre = "[(''name'', ''Ann'')] :: row"
  let ?post = "[(''email'', ''other'')] :: row"
  let ?row = "?pre @ (''Work E-MAIL / EMAIL'', ''ann@x.org'') # ?post"
  let ?row2 = "[(''name'', ''Ann''), (''contact'', ''ann@x.org'')] :: row"
  have h1: "?row = ?pre @ (''Work E-MAIL / EMAIL'', ''ann@x.org'') # ?post
      \<and> str_includes (toLowerCase ''Work E-MAIL / EMAIL'') ''email''
      \<and> (\<forall>k' \<in> fst ` set ?pre. \<not> str_includes (toLowerCase k') ''email'')"
    by (simp add: toLowerCase_def lower_char_def)
  have h2: "\<forall>k' \<in> fst ` set ?row2. \<not> str_includes (toLowerCase k') ''email''"
    by (simp add: toLowerCase_def lower_char_def)
  from locate_email_column [where row = ?row and pre = ?pre and k = "''Work E-MAIL / EMAIL''"
      and v = "''ann@x.org''" and post = ?post] h1
  have one: "get_prop ?row (emailKey ?row) = Some ''ann@x.org''"
    by blast
  from locate_email_column [where row = ?row2] h2
  have two: "get_prop ?row2 (emailKey ?row2) = map_of ?row2 ''undefined''"
    by blast
  from one two show ?thesis
    by simp
qed

text \<open>
  C6 as stated fails in both workers. The syntax-only worker does not fall back
  to the first column: for a record whose only column is \<^verbatim>\<open>address\<close> the email
  is absent and the record is Invalid, although the first column holds an
  address the validator accepts. The deep-validation worker does not match
  column names case-insensitively: with the columns \<^verbatim>\<open>id\<close> and \<^verbatim>\<open>EMAIL\<close> it
  validates the value of \<^verbatim>\<open>id\<close>.
\<close>

theorem locate_email_counterexample:
  "get_prop [(''address'', ''a@b.com'')] (emailKey [(''address'', ''a@b.com'')]) = None
   \<and> first_value [(''address'', ''a@b.com'')] = Some ''a@b.com''
   \<and> validate sample_env ''a@b.com''
   \<and> snd (on_data sample_env (\<lparr>validCount = 0, invalidCount = 0, riskyCount = 0\<rparr>, [])
             [(''address'', ''a@b.com'')])
      = [[(''address'', ''a@b.com''), (''Validation Status'', ''Invalid'')]]
   \<and> str_includes (toLowerCase ''EMAIL'') ''email''
   \<and> locate_email [(''id'', ''7''), (''EMAIL'', ''a@b.com'')] = Some ''7''"
  by (simp add: eval_defs)

section \<open>The output records\<close>

lemma assign_fresh:
  assumes "k \<notin> fst ` set row"
  shows "assign row k v = row @ [(k, v)]"
  using assms by (induction row) auto

lemma assign_keys:
  "map fst (assign row k v) = (if k \<in> set (map fst row) then map fst row else map fst row @ [k])"
  by (induction row) (force split: if_splits)+

lemma format_rows_length: "length (format_rows xs) = length xs"
  by (simp add: format_rows_def split: list.splits)

lemma format_rows_columns:
  assumes "l \<in> set (format_rows (x # xs))"
  shows "map fst l = map fst x"
  using assms by (auto simp: format_rows_def comp_def)

lemma format_rows_nth:
  assumes "i < length (x # xs)"
  shows "format_rows (x # xs) ! i = map (\<lambda>k. (k, cell ((x # xs) ! i) k)) (map fst x)"
  using assms unfolding format_rows_def list.case by (rule nth_map)

lemma cells_of_own_keys:
  assumes "distinct (map fst x)"
  shows "map (\<lambda>k. (k, cell x k)) (map fst x) = x"
proof -
  have "(fst kv, cell x (fst kv)) = kv" if "kv \<in> set x" for kv
  proof -
    from that have "(fst kv, snd kv) \<in> set x" by simp
    with assms have "map_of x (fst kv) = Some (snd kv)" by (rule map_of_is_SomeI)
    then show ?thesis by (simp add: cell_def)
  qed
  then have "map (\<lambda>kv. (fst kv, cell x (fst kv))) x = map (\<lambda>kv. kv) x"
    by (intro map_cong refl)
  then show ?thesis by (simp add: comp_def)
qed

lemma format_rows_uniform:
  assumes "\<forall>y \<in> set xs. map fst y = ks" and "distinct ks"
  shows "format_rows xs = xs"
proof (cases xs)
  case Nil
  then show ?thesis by (simp add: format_rows_def)
next
  case (Cons x rest)
  with assms(1) have first: "map fst x = ks" by simp
  have "map (\<lambda>k. (k, cell y k)) ks = y" if "y \<in> set xs" for y
    using that assms cells_of_own_keys [of y] by auto
  then have "map (\<lambda>y. map (\<lambda>k. (k, cell y k)) ks) xs = map (\<lambda>y. y) xs"
    by (intro map_cong refl)
  with Cons first show ?thesis by (simp add: format_rows_def)
qed

lemma annotate_fresh:
  assumes "''Validation Status'' \<notin> fst ` set row"
  shows "annotate e row = row @ [(''Validation Status'', ''Valid'')]
    \<or> annotate e row = row @ [(''Validation Status'', ''Invalid'')]"
  using assms by (simp add: annotate_def assign_fresh)

lemma annotate_deep_fresh:
  assumes "''validation_status'' \<notin> fst ` set row" and "''validation_reason'' \<notin> fst ` set row"
  shows "annotate_deep ve row
    = row @ [(''validation_status'', fst (ve (the (locate_email row)))),
             (''validation_reason'', snd (ve (the (locate_email row))))]"
proof -
  from assms(1) have "assign row ''validation_status'' x = row @ [(''validation_status'', x)]" for x
    by (simp add: assign_fresh)
  moreover from assms(2)
  have "''validation_reason'' \<notin> fst ` set (row @ [(''validation_status'', x)])" for x
    by simp
  ultimately show ?thesis
    by (simp add: annotate_deep_def assign_fresh)
qed

lemma annotate_uniform:
  assumes "\<forall>y \<in> set rows. map fst y = ks" and "distinct ks" and "''Validation Status'' \<notin> set ks"
  shows "format_rows (map (annotate e) rows) = map (annotate e) rows"
proof (rule format_rows_uniform)
  show "\<forall>y \<in> set (map (annotate e) rows). map fst y = ks @ [''Validation Status'']"
    using assms(1,3) by (auto simp: annotate_def assign_keys)
  show "distinct (ks @ [''Validation Status''])"
    using assms(2,3) by simp
qed

lemma annotate_deep_uniform:
  assumes "\<forall>y \<in> set rows. map fst y = ks" and "distinct ks"
    and "''validation_status'' \<notin> set ks" and "''validation_reason'' \<notin> set ks"
  shows "format_rows (map (annotate_deep ve) rows) = map (annotate_deep ve) rows"
proof (rule format_rows_uniform)
  show "\<forall>y \<in> set (map (annotate_deep ve) rows).
      map fst y = ks @ [''validation_status'', ''validation_reason'']"
    using assms(1,3,4) by (auto simp: annotate_deep_def assign_keys)
  show "distinct (ks @ [''validation_status'', ''validation_reason''])"
    using assms(2,3,4) by simp
qed

lemma worker_output:
  assumes "disk w filePath = Some f" and "filePath \<noteq> temp_path (results_name jobId)"
  shows "disk (snd (processCsvJob e jobId filePath w)) (temp_path (results_name jobId))
    = Some (File (format_rows (map (annotate e) (records f))) End)"
proof -
  have out: "snd (foldl (on_data e) (\<lparr>validCount = 0, invalidCount = 0, riskyCount = 0\<rparr>, [])
      (records f)) = map (annotate e) (records f)"
    using foldl_on_data_tally
      [of e "(\<lparr>validCount = 0, invalidCount = 0, riskyCount = 0\<rparr>, [])" "records f"]
    by simp
  show ?thesis
    using assms
    by (auto simp: processCsvJob_def Let_def out update_doc_def remove_file_def
        split: ending.splits option.splits prod.splits)
qed

text \<open>
  C8, amended. The record is the object the parser delivers, its columns the
  object's keys in the object's key order. The syntax-only worker passes one
  record to the output formatter per input record, in input order: the input
  record with \<^verbatim>\<open>Validation Status\<close> set (there is no reason column). The result
  file has one line per input record; its columns are the keys of the first
  record passed, and every line holds its record's values under these columns,
  empty where the record has none. So when all input records have the same
  distinct keys, none of them \<^verbatim>\<open>Validation Status\<close>, every output line is the
  input record's columns in their order followed by the one trailing column
  \<^verbatim>\<open>Validation Status\<close>. The deep-validation worker, when the job completes,
  has passed one record per input record with a non-empty located email, in
  input order, with \<^verbatim>\<open>validation_status\<close> and \<^verbatim>\<open>validation_reason\<close> set, and
  its result file is formed in the same way; when all these records have the
  same distinct keys, none of them one of the two names, every output line is
  the input record's columns in their order followed by these two trailing
  columns.
\<close>

theorem output_records:
  assumes "disk w filePath = Some f" and "filePath \<noteq> temp_path (results_name jobId)"
  shows "disk (snd (processCsvJob e jobId filePath w)) (temp_path (results_name jobId))
        = Some (File (format_rows (map (annotate e) (records f))) End)
    \<and> (jobs w jobId = Some j0 \<and> status j0 = Processing
          \<and> deep_worker ve e jobId filePath w = (r, w')
          \<and> jobs w' jobId = Some j \<and> status j = Completed \<longrightarrow>
          disk w' (temp_path (results_name jobId))
            = Some (File (format_rows (map (annotate_deep ve) (filter has_email (records f)))) End))
    \<and> length (format_rows (map (annotate e) (records f))) = length (records f)
    \<and> length (format_rows (map (annotate_deep ve) (filter has_email (records f))))
        = length (filter has_email (records f))
    \<and> (\<forall>l \<in> set (format_rows (x # xs)). map fst l = map fst x)
    \<and> (i < length (x # xs) \<longrightarrow>
          format_rows (x # xs) ! i = map (\<lambda>k. (k, cell ((x # xs) ! i) k)) (map fst x))
    \<and> ((\<forall>y \<in> set (records f). map fst y = ks) \<and> distinct ks
          \<and> ''Validation Status'' \<notin> set ks \<longrightarrow>
          format_rows (map (annotate e) (records f)) = map (annotate e) (records f)
          \<and> (\<forall>y \<in> set (records f).
                annotate e y = y @ [(''Validation Status'', ''Valid'')]
                \<or> annotate e y = y @ [(''Validation Status'', ''Invalid'')]))
    \<and> ((\<forall>y \<in> set (filter has_email (records f)). map fst y = ks) \<and> distinct ks
          \<and> ''validation_status'' \<notin> set ks \<and> ''validation_reason'' \<notin> set ks \<longrightarrow>
          format_rows (map (annotate_deep ve) (filter has_email (records f)))
            = map (annotate_deep ve) (filter has_email (records f))
          \<and> (\<forall>y \<in> set (filter has_email (records f)).
                annotate_deep ve y
                  = y @ [(''validation_status'', fst (ve (the (locate_email y)))),
                         (''validation_reason'', snd (ve (the (locate_email y))))]))"
proof (intro conjI impI)
  show "disk (snd (processCsvJob e jobId filePath w)) (temp_path (results_name jobId))
        = Some (File (format_rows (map (annotate e) (records f))) End)"
    by (rule worker_output [OF assms])
  show "length (format_rows (map (annotate e) (records f))) = length (records f)"
    by (simp add: format_rows_length)
  show "length (format_rows (map (annotate_deep ve) (filter has_email (records f))))
        = length (filter has_email (records f))"
    by (simp add: format_rows_length)
  show "\<forall>l \<in> set (format_rows (x # xs)). map fst l = map fst x"
    using format_rows_columns by blast
next
  assume "i < length (x # xs)"
  then show "format_rows (x # xs) ! i = map (\<lambda>k. (k, cell ((x # xs) ! i) k)) (map fst x)"
    by (rule format_rows_nth)
next
  assume a: "jobs w jobId = Some j0 \<and> status j0 = Processing
      \<and> deep_worker ve e jobId filePath w = (r, w')
      \<and> jobs w' jobId = Some j \<and> status j = Completed"
  then have "jobs w jobId = Some j0" "status j0 = Processing"
    "deep_worker ve e jobId filePath w = (r, w')" "jobs w' jobId = Some j" "status j = Completed"
    by simp_all
  from deep_completed [OF this(1,2) assms this(3,4,5)]
  show "disk w' (temp_path (results_name jobId))
      = Some (File (format_rows (map (annotate_deep ve) (filter has_email (records f)))) End)"
    by simp
next
  assume a: "(\<forall>y \<in> set (records f). map fst y = ks) \<and> distinct ks
      \<and> ''Validation Status'' \<notin> set ks"
  then show "format_rows (map (annotate e) (records f)) = map (annotate e) (records f)"
    by (intro annotate_uniform [where ks = ks]) simp_all
  show "\<forall>y \<in> set (records f).
      annotate e y = y @ [(''Validation Status'', ''Valid'')]
      \<or> annotate e y = y @ [(''Validation Status'', ''Invalid'')]"
  proof
    fix y assume "y \<in> set (records f)"
    with a have "''Validation Status'' \<notin> fst ` set y"
      by (metis set_map)
    then show "annotate e y = y @ [(''Validation Status'', ''Valid'')]
        \<or> annotate e y = y @ [(''Validation Status'', ''Invalid'')]"
      by (rule annotate_fresh)
  qed
next
  assume a: "(\<forall>y \<in> set (filter has_email (records f)). map fst y = ks) \<and> distinct ks
      \<and> ''validation_status'' \<notin> set ks \<and> ''validation_reason'' \<notin> set ks"
  then show "format_rows (map (annotate_deep ve) (filter has_email (records f)))
      = map (annotate_deep ve) (filter has_email (records f))"
    by (intro annotate_deep_uniform [where ks = ks]) simp_all
  show "\<forall>y \<in> set (filter has_email (records f)).
      annotate_deep ve y
        = y @ [(''validation_status'', fst (ve (the (locate_email y)))),
               (''validation_reason'', snd (ve (the (locate_email y))))]"
  proof
    fix y assume "y \<in> set (filter has_email (records f))"
    with a have "''validation_status'' \<notin> fst ` set y" "''validation_reason'' \<notin> fst ` set y"
      by (metis set_map)+
    then show "annotate_deep ve y
        = y @ [(''validation_status'', fst (ve (the (locate_email y)))),
               (''validation_reason'', snd (ve (the (locate_email y))))]"
      by (rule annotate_deep_fresh)
  qed
qed

theorem output_records_witness:
  "disk (snd (simple_run sample_env (File contacts End))) ''temp/results-j1.csv''
     = Some (File [[(''name'', ''Ann''), (''email'', ''ann@x.org''), (''Validation Status'', ''Valid'')],
                   [(''name'', ''Bob''), (''email'', ''bob-at-x''),
                    (''Validation Status'', ''Invalid'')]] End)
   \<and> disk (snd (deep_run sample_env (File contacts End))) ''temp/results-j1.csv''
     = Some (File [[(''name'', ''Ann''), (''email'', ''ann@x.org''),
                    (''validation_status'', ''Risky''), (''validation_reason'', ''Mock Logic'')],
                   [(''name'', ''Bob''), (''email'', ''bob-at-x''),
                    (''validation_status'', ''Risky''), (''validation_reason'', ''Mock Logic'')]] End)
   \<and> format_rows [[(''Validation Status'', ''Invalid'')],
                    [(''email'', ''a@b.com''), (''Validation Status'', ''Valid'')]] ! 1
     = [(''Validation Status'', ''Valid'')]
   \<and> list_all (\<lambda>l. map fst l = [''Validation Status''])
        (format_rows [[(''Validation Status'', ''Invalid'')],
                      [(''email'', ''a@b.com''), (''Validation Status'', ''Valid'')]])"
proof -
  let ?f = "File contacts End"
  let ?w = "created ''j1'' ''uploads/f1'' ?f"
  let ?ks = "[''name'', ''email'']"
  let ?x = "[(''Validation Status'', ''Invalid'')] :: row"
  let ?xs = "[[(''email'', ''a@b.com''), (''Validation Status'', ''Valid'')]] :: row list"
  obtain rd wd where rund: "deep_worker validateEmail sample_env ''j1'' ''uploads/f1'' ?w = (rd, wd)"
    by (cases "deep_worker validateEmail sample_env ''j1'' ''uploads/f1'' ?w")
  have start: "disk ?w ''uploads/f1'' = Some ?f" "''uploads/f1'' \<noteq> temp_path (results_name ''j1'')"
    by (simp_all add: created_def temp_path_def)
  have "\<exists>j. jobs (snd (deep_run sample_env ?f)) ''j1'' = Some j \<and> status j = Completed"
    by (simp add: eval_defs contacts_def)
  then obtain jd where jd: "jobs wd ''j1'' = Some jd" "status jd = Completed"
    using rund by (auto simp: deep_run_def processCsvJob_deep_def)
  have job: "jobs ?w ''j1'' = Some (initial_job ''j1'' ''u1'' ''list.csv'' 0)
      \<and> status (initial_job ''j1'' ''u1'' ''list.csv'' 0) = Processing
      \<and> deep_worker validateEmail sample_env ''j1'' ''uploads/f1'' ?w = (rd, wd)
      \<and> jobs wd ''j1'' = Some jd \<and> status jd = Completed"
    using rund jd by (simp add: created_def initial_job_def)
  have all: "has_email y" if "y \<in> set contacts" for y
    using that by (auto simp: contacts_def has_email_def locate_email_def js_or_def truthy_def)
  then have flt: "filter has_email (records ?f) = contacts"
    by simp
  have keys: "(\<forall>y \<in> set (records ?f). map fst y = ?ks) \<and> distinct ?ks
      \<and> ''Validation Status'' \<notin> set ?ks"
    "(\<forall>y \<in> set (filter has_email (records ?f)). map fst y = ?ks) \<and> distinct ?ks
      \<and> ''validation_status'' \<notin> set ?ks \<and> ''validation_reason'' \<notin> set ?ks"
    unfolding flt by (simp_all add: contacts_def)
  have idx: "1 < length (?x # ?xs)"
    by simp
  note t = output_records [OF start, where e = sample_env and ve = validateEmail
      and ?j0.0 = "initial_job ''j1'' ''u1'' ''list.csv'' 0" and r = rd and w' = wd and j = jd
      and ks = ?ks and x = ?x and xs = ?xs and i = 1]
  from t keys(1) have one: "disk (snd (processCsvJob sample_env ''j1'' ''uploads/f1'' ?w))
      (temp_path (results_name ''j1'')) = Some (File (map (annotate sample_env) (records ?f)) End)"
    by simp
  from t job keys(2) have two: "disk wd (temp_path (results_name ''j1''))
      = Some (File (map (annotate_deep validateEmail) (filter has_email (records ?f))) End)"
    by simp
  from t idx have three: "format_rows (?x # ?xs) ! 1
      = map (\<lambda>k. (k, cell ((?x # ?xs) ! 1) k)) (map fst ?x)"
    by blast
  from t have four: "\<forall>l \<in> set (format_rows (?x # ?xs)). map fst l = map fst ?x"
    by blast
  have ev: "map (annotate sample_env) contacts
      = [[(''name'', ''Ann''), (''email'', ''ann@x.org''), (''Validation Status'', ''Valid'')],
         [(''name'', ''Bob''), (''email'', ''bob-at-x''), (''Validation Status'', ''Invalid'')]]"
    "map (annotate_deep validateEmail) contacts
      = [[(''name'', ''Ann''), (''email'', ''ann@x.org''),
          (''validation_status'', ''Risky''), (''validation_reason'', ''Mock Logic'')],
         [(''name'', ''Bob''), (''email'', ''bob-at-x''),
          (''validation_status'', ''Risky''), (''validation_reason'', ''Mock Logic'')]]"
    by (simp_all add: annotate_def annotate_deep_def contacts_def eval_defs)
  have a: "disk (snd (simple_run sample_env ?f)) ''temp/results-j1.csv''
      = Some (File (map (annotate sample_env) contacts) End)"
    using one by (simp add: simple_run_def temp_path_def results_name_def)
  have b: "disk (snd (deep_run sample_env ?f)) ''temp/results-j1.csv''
      = Some (File (map (annotate_deep validateEmail) contacts) End)"
    using two rund flt
    by (simp add: deep_run_def processCsvJob_deep_def temp_path_def results_name_def)
  have c: "format_rows (?x # ?xs) ! 1 = [(''Validation Status'', ''Valid'')]"
    using three by (simp add: cell_def)
  have d: "list_all (\<lambda>l. map fst l = [''Validation Status'']) (format_rows (?x # ?xs))"
    using four by (simp add: list_all_iff)
  from a b c d show ?thesis
    unfolding ev by blast
qed

text \<open>
  C8 as stated fails. When the first record passed to the formatter lacks a
  column that a later record has, the later record's value is not written: for
  an empty record followed by a record with an \<^verbatim>\<open>email\<close> column, the result
  file of the syntax-only worker has the single column \<^verbatim>\<open>Validation Status\<close>.
  In the same worker a record that already has a column named
  \<^verbatim>\<open>Validation Status\<close> keeps that column where it was, with its value
  overwritten, and gets no trailing column. The deep-validation worker names
  its trailing columns \<^verbatim>\<open>validation_status\<close> and \<^verbatim>\<open>validation_reason\<close> and
  writes two lines for the three-record input.
\<close>

theorem output_records_counterexample:
  "disk (snd (simple_run sample_env (File ragged_rows End))) ''temp/results-j1.csv''
     = Some (File [[(''Validation Status'', ''Invalid'')], [(''Validation Status'', ''Valid'')]] End)
   \<and> ragged_rows = [[], [(''email'', ''a@b.com'')]]
   \<and> disk (snd (simple_run sample_env
              (File [[(''Validation Status'', ''pending''), (''email'', ''a@b.com'')]] End)))
        ''temp/results-j1.csv''
     = Some (File [[(''Validation Status'', ''Valid''), (''email'', ''a@b.com'')]] End)
   \<and> disk (snd (deep_run sample_env (File three_rows End))) ''temp/results-j1.csv''
     = Some (File [[(''email'', ''a@b.com''), (''validation_status'', ''Risky''),
                    (''validation_reason'', ''Mock Logic'')],
                   [(''email'', ''not-an-email''), (''validation_status'', ''Risky''),
                    (''validation_reason'', ''Mock Logic'')]] End)
   \<and> length three_rows = 3"
  by (simp add: eval_defs ragged_rows_def)

section \<open>Progress updates in the deep-validation worker\<close>

lemma deep_step_skip:
  assumes "\<not> has_email row"
  shows "deep_step e ve jobId row s = (None, s)"
  using assms by (simp add: deep_step_def has_email_def Let_def)

lemma deep_step_quiet:
  assumes "has_email row" and "(processed s + 1) mod 10 \<noteq> 0"
  shows "deep_step e ve jobId row s = (None, advance ve row s)"
  using assms by (simp add: deep_step_def has_email_def advance_def annotate_deep_def Let_def)

lemma deep_step_report:
  assumes "has_email row" and "(processed s + 1) mod 10 = 0"
  shows "deep_step e ve jobId row s
    = (fst (update_doc e jobId
              (progress_fields (processed s + 1) (counts (advance ve row s))) (wld s)),
       (advance ve row s)
         \<lparr>wld := snd (update_doc e jobId
                        (progress_fields (processed s + 1) (counts (advance ve row s))) (wld s))\<rparr>)"
  using assms
  by (simp add: deep_step_def has_email_def advance_def annotate_deep_def Let_def
      split: prod.splits option.splits)

lemma deep_step_report_ok:
  assumes "has_email row" and "(processed s + 1) mod 10 = 0"
    and "store_err e (writes (wld s)) = None" and "jobs (wld s) jobId = Some j0"
  shows "\<exists>w'. deep_step e ve jobId row s = (None, (advance ve row s)\<lparr>wld := w'\<rparr>)
    \<and> writes w' = writes (wld s) + 1 \<and> (\<exists>j1. jobs w' jobId = Some j1)"
proof -
  let ?u = "update_doc e jobId
              (progress_fields (processed s + 1) (counts (advance ve row s))) (wld s)"
  from assms(3,4) have "fst ?u = None" "writes (snd ?u) = writes (wld s) + 1"
    "\<exists>j1. jobs (snd ?u) jobId = Some j1"
    by (simp_all add: update_doc_def Let_def)
  with deep_step_report [OF assms(1,2), of e ve jobId] show ?thesis
    by auto
qed

lemma deep_step_report_fail:
  assumes "has_email row" and "(processed s + 1) mod 10 = 0"
    and "store_err e (writes (wld s)) = Some err"
  shows "\<exists>w'. deep_step e ve jobId row s = (Some err, (advance ve row s)\<lparr>wld := w'\<rparr>)
    \<and> writes w' = writes (wld s) + 1"
proof -
  let ?u = "update_doc e jobId
              (progress_fields (processed s + 1) (counts (advance ve row s))) (wld s)"
  from assms(3) have "fst ?u = Some err" "writes (snd ?u) = writes (wld s) + 1"
    by (simp_all add: update_doc_def Let_def)
  with deep_step_report [OF assms(1,2), of e ve jobId] show ?thesis
    by auto
qed

lemma div10_same:
  assumes "(p + 1) mod 10 \<noteq> (0::nat)"
  shows "(p + 1) div 10 = p div 10"
  using assms by (simp add: div_Suc)

lemma div10_next:
  assumes "(p + 1) mod 10 = (0::nat)"
  shows "(p + 1) div 10 = p div 10 + 1" and "p + 1 = 10 * (p div 10 + 1)"
proof -
  from assms show d: "(p + 1) div 10 = p div 10 + 1"
    by (simp add: div_Suc)
  have "p + 1 = 10 * ((p + 1) div 10) + (p + 1) mod 10"
    by (simp only: mult_div_mod_eq)
  with assms d show "p + 1 = 10 * (p div 10 + 1)"
    by (simp only: add_0_right)
qed

lemma below_next_ten:
  fixes p :: nat
  assumes "q = 10 * (p div 10 + i + 1)"
  shows "p < q"
proof -
  have "p < 10 + 10 * (p div 10)"
    by (rule dividend_less_times_div) simp
  also have "\<dots> \<le> 10 * (p div 10 + i + 1)"
    by simp
  finally show ?thesis
    using assms by simp
qed

lemma take_Cons_pos:
  assumes "0 < n"
  shows "take n (x # xs) = x # take (n - 1) xs"
  using assms by (cases n) simp_all

lemma deep_loop_abort:
  assumes "jobs (wld s) jobId = Some j0"
    and "i < (processed s + length (filter has_email rows)) div 10 - processed s div 10"
    and "\<forall>n<i. store_err e (writes (wld s) + n) = None"
    and "store_err e (writes (wld s) + i) = Some err"
  shows "\<exists>s'. deep_loop e ve jobId rows s = (Some err, s')
    \<and> processed s' = 10 * (processed s div 10 + i + 1)
    \<and> out s' = out s @ take (processed s' - processed s)
                         (map (annotate_deep ve) (filter has_email rows))
    \<and> writes (wld s') = writes (wld s) + i + 1"
  using assms
proof (induction rows arbitrary: s i j0)
  case Nil
  then show ?case by simp
next
  case (Cons row rows)
  let ?m = "length (filter has_email rows)"
  let ?rest = "map (annotate_deep ve) (filter has_email rows)"
  show ?case
  proof (cases "has_email row")
    case False
    from deep_step_skip [OF False] have step: "deep_step e ve jobId row s = (None, s)" .
    from Cons.prems(2) False
    have "i < (processed s + ?m) div 10 - processed s div 10" by simp
    from Cons.IH [OF Cons.prems(1) this Cons.prems(3,4)] obtain s' where
      "deep_loop e ve jobId rows s = (Some err, s')"
      "processed s' = 10 * (processed s div 10 + i + 1)"
      "out s' = out s @ take (processed s' - processed s) ?rest"
      "writes (wld s') = writes (wld s) + i + 1"
      by blast
    moreover have "deep_loop e ve jobId (row # rows) s = deep_loop e ve jobId rows s"
      by (simp add: step)
    moreover have "filter has_email (row # rows) = filter has_email rows"
      using False by simp
    ultimately show ?thesis by auto
  next
    case True
    let ?a = "advance ve row s"
    have pa: "processed ?a = processed s + 1" and oa: "out ?a = out s @ [annotate_deep ve row]"
      and wa: "wld ?a = wld s"
      by (simp_all add: advance_def)
    have flt: "map (annotate_deep ve) (filter has_email (row # rows)) = annotate_deep ve row # ?rest"
      using True by simp
    from Cons.prems(2) True
    have bound: "i < (processed s + 1 + ?m) div 10 - processed s div 10" by simp
    have tk: "take (p' - processed s) (annotate_deep ve row # ?rest)
        = annotate_deep ve row # take (p' - (processed s + 1)) ?rest"
      if "processed s < p'" for p'
      using that take_Cons_pos [of "p' - processed s" "annotate_deep ve row" ?rest] by simp
    show ?thesis
    proof (cases "(processed s + 1) mod 10 = 0")
      case False
      from deep_step_quiet [OF True False]
      have step: "deep_step e ve jobId row s = (None, ?a)" .
      from False have dv: "(processed s + 1) div 10 = processed s div 10" by (rule div10_same)
      from bound dv pa
      have b: "i < (processed ?a + ?m) div 10 - processed ?a div 10" by simp
      from Cons.prems(1) wa have j: "jobs (wld ?a) jobId = Some j0" by simp
      from Cons.prems(3,4) wa
      have e1: "\<forall>n<i. store_err e (writes (wld ?a) + n) = None"
        and e2: "store_err e (writes (wld ?a) + i) = Some err" by simp_all
      from Cons.IH [OF j b e1 e2] obtain s' where s':
        "deep_loop e ve jobId rows ?a = (Some err, s')"
        "processed s' = 10 * (processed ?a div 10 + i + 1)"
        "out s' = out ?a @ take (processed s' - processed ?a) ?rest"
        "writes (wld s') = writes (wld ?a) + i + 1"
        by blast
      have A: "deep_loop e ve jobId (row # rows) s = (Some err, s')"
        by (simp add: step s'(1))
      have B: "processed s' = 10 * (processed s div 10 + i + 1)"
        using s'(2) by (simp only: pa dv)
      then have gt: "processed s < processed s'" by (rule below_next_ten)
      have C: "out s' = out s @ take (processed s' - processed s)
          (map (annotate_deep ve) (filter has_email (row # rows)))"
        using s'(3) by (simp only: flt tk [OF gt] oa pa append_assoc append_Cons append_Nil)
      have D: "writes (wld s') = writes (wld s) + i + 1"
        using s'(4) by (simp only: wa)
      from A B C D show ?thesis by blast
    next
      case report: True
      then have dv: "(processed s + 1) div 10 = processed s div 10 + 1"
        and eq: "processed s + 1 = 10 * (processed s div 10 + 1)" by (rule div10_next)+
      show ?thesis
      proof (cases i)
        case 0
        with Cons.prems(4) have "store_err e (writes (wld s)) = Some err" by simp
        from deep_step_report_fail [OF True report this] obtain w' where
          step: "deep_step e ve jobId row s = (Some err, ?a\<lparr>wld := w'\<rparr>)"
          and wr: "writes w' = writes (wld s) + 1" by blast
        let ?b = "?a\<lparr>wld := w'\<rparr>"
        have pb: "processed ?b = processed s + 1" and ob: "out ?b = out s @ [annotate_deep ve row]"
          and wb: "wld ?b = w'"
          by (simp_all add: advance_def)
        have A: "deep_loop e ve jobId (row # rows) s = (Some err, ?b)"
          by (simp add: step)
        have B: "processed ?b = 10 * (processed s div 10 + i + 1)"
          using eq by (simp only: pb 0 add_0_right)
        have C: "out ?b = out s @ take (processed ?b - processed s)
            (map (annotate_deep ve) (filter has_email (row # rows)))"
          by (simp only: flt pb ob) simp
        have D: "writes (wld ?b) = writes (wld s) + i + 1"
          using wr by (simp only: wb 0 add_0_right)
        from A B C D show ?thesis by blast
      next
        case (Suc k)
        with Cons.prems(3) have "store_err e (writes (wld s)) = None" by force
        from deep_step_report_ok [OF True report this Cons.prems(1)] obtain w' j1 where
          step: "deep_step e ve jobId row s = (None, ?a\<lparr>wld := w'\<rparr>)"
          and wr: "writes w' = writes (wld s) + 1" and j: "jobs w' jobId = Some j1" by blast
        let ?b = "?a\<lparr>wld := w'\<rparr>"
        have pb: "processed ?b = processed s + 1" and ob: "out ?b = out s @ [annotate_deep ve row]"
          and wb: "wld ?b = w'"
          by (simp_all add: advance_def)
        from bound dv Suc
        have "k < (processed s + 1 + ?m) div 10 - (processed s + 1) div 10" by simp
        then have b: "k < (processed ?b + ?m) div 10 - processed ?b div 10"
          by (simp only: pb)
        have e1: "\<forall>n<k. store_err e (writes (wld ?b) + n) = None"
        proof (intro allI impI)
          fix n assume "n < k"
          with Suc have "Suc n < i" by simp
          with Cons.prems(3) have "store_err e (writes (wld s) + Suc n) = None" by blast
          with wr show "store_err e (writes (wld ?b) + n) = None" by (simp add: wb)
        qed
        from Cons.prems(4) Suc wr
        have e2: "store_err e (writes (wld ?b) + k) = Some err" by (simp add: wb)
        from j have jb: "jobs (wld ?b) jobId = Some j1" by (simp add: wb)
        from Cons.IH [OF jb b e1 e2] obtain s' where s':
          "deep_loop e ve jobId rows ?b = (Some err, s')"
          "processed s' = 10 * (processed ?b div 10 + k + 1)"
          "out s' = out ?b @ take (processed s' - processed ?b) ?rest"
          "writes (wld s') = writes (wld ?b) + k + 1"
          by blast
        have A: "deep_loop e ve jobId (row # rows) s = (Some err, s')"
          by (simp add: step s'(1))
        have "processed s' = 10 * (processed s div 10 + 1 + k + 1)"
          using s'(2) by (simp only: pb dv)
        then have B: "processed s' = 10 * (processed s div 10 + i + 1)"
          using Suc by simp
        then have gt: "processed s < processed s'" by (rule below_next_ten)
        have C: "out s' = out s @ take (processed s' - processed s)
            (map (annotate_deep ve) (filter has_email (row # rows)))"
          using s'(3) by (simp only: flt tk [OF gt] ob pb append_assoc append_Cons append_Nil)
        have "writes (wld s') = writes (wld s) + 1 + k + 1"
          using s'(4) by (simp only: wb wr)
        then have D: "writes (wld s') = writes (wld s) + i + 1"
          using Suc by simp
        from A B C D show ?thesis by blast
      qed
    qed
  qed
qed

lemma catch_finally_job:
  assumes "catch_finally e jobId filePath msg w = (r, w')" and "jobs w jobId = Some j0"
  shows "\<exists>j. jobs w' jobId = Some j
    \<and> (store_err e (writes w) = None \<longrightarrow> j = j0\<lparr>status := Failed, error := Some msg\<rparr> \<and> r = Resolved)
    \<and> (store_err e (writes w) \<noteq> None \<longrightarrow> j = j0 \<and> r = Rejected (the (store_err e (writes w))))"
  using assms
  by (auto simp: catch_finally_def update_doc_def remove_file_def Let_def
      split: option.splits prod.splits)

text \<open>
  C4, amended. In the deep-validation worker a failed intermediate progress
  write is not swallowed. If the i-th progress update of a run is the first
  store write to fail, the loop stops there: the result file holds exactly
  10 * (i + 1) lines, those of the first 10 * (i + 1) records with an email,
  and no later record is processed. The job does not reach the completed state:
  it is marked failed with the store's error message, and the promise resolves,
  when the following write succeeds; when that write fails too the job stays
  processing and the promise is rejected with the second error. The uploaded
  file is removed in either case. (The syntax-only worker sends no intermediate
  updates.)
\<close>

theorem progress_failure_aborts:
  assumes "jobs w jobId = Some j0" and "status j0 = Processing"
    and "disk w filePath = Some f" and "filePath \<noteq> temp_path (results_name jobId)"
    and "i < length (filter has_email (records f)) div 10"
    and "\<forall>n<i. store_err e (writes w + n) = None"
    and "store_err e (writes w + i) = Some err"
    and "deep_worker ve e jobId filePath w = (r, w')"
  shows "disk w' (temp_path (results_name jobId))
        = Some (File (format_rows (take (10 * (i + 1))
                       (map (annotate_deep ve) (filter has_email (records f))))) End)
    \<and> length (format_rows (take (10 * (i + 1))
                 (map (annotate_deep ve) (filter has_email (records f))))) = 10 * (i + 1)
    \<and> (\<exists>j. jobs w' jobId = Some j \<and> status j \<noteq> Completed
          \<and> (store_err e (writes w + i + 1) = None \<longrightarrow>
                status j = Failed \<and> error j = Some err \<and> r = Resolved)
          \<and> (\<forall>err2. store_err e (writes w + i + 1) = Some err2 \<longrightarrow>
                status j = Processing \<and> r = Rejected err2))
    \<and> removed w' = filePath # removed w"
proof -
  define w1 where "w1 = w\<lparr>disk := (disk w)(temp_path (results_name jobId) \<mapsto> File [] End)\<rparr>"
  define s0 where
    "s0 = \<lparr>processed = 0, counts = \<lparr>validCount = 0, invalidCount = 0, riskyCount = 0\<rparr>,
           out = [], wld = w1\<rparr>"
  let ?rows = "map (annotate_deep ve) (filter has_email (records f))"
  have rd: "disk w1 filePath = Some f"
    using assms(3,4) by (simp add: w1_def)
  have init: "jobs (wld s0) jobId = Some j0"
    "i < (processed s0 + length (filter has_email (records f))) div 10 - processed s0 div 10"
    "\<forall>n<i. store_err e (writes (wld s0) + n) = None"
    "store_err e (writes (wld s0) + i) = Some err"
    using assms(1,5,6,7) by (simp_all add: s0_def w1_def)
  from deep_loop_abort [OF init, of ve] obtain s where s:
    "deep_loop e ve jobId (records f) s0 = (Some err, s)"
    "processed s = 10 * (processed s0 div 10 + i + 1)"
    "out s = out s0 @ take (processed s - processed s0) ?rows"
    "writes (wld s) = writes (wld s0) + i + 1"
    by blast
  define w2 where
    "w2 = (wld s)\<lparr>disk := (disk (wld s))(temp_path (results_name jobId) \<mapsto> File (format_rows (out s)) End)\<rparr>"
  have outs: "out s = take (10 * (i + 1)) ?rows"
    using s(2,3) by (simp add: s0_def)
  from assms(5) have "i + 1 \<le> length (filter has_email (records f)) div 10"
    by simp
  then have "10 * (i + 1) \<le> 10 * (length (filter has_email (records f)) div 10)"
    by (rule mult_le_mono2)
  also have "\<dots> \<le> length (filter has_email (records f))"
    by (rule times_div_less_eq_dividend)
  finally have enough: "10 * (i + 1) \<le> length ?rows"
    by simp
  then have lines: "length (format_rows (take (10 * (i + 1)) ?rows)) = 10 * (i + 1)"
    by (simp only: format_rows_length length_take min_absorb2)
  from deep_loop_frame [OF s(1), of jobId] assms(1,2)
  obtain j2 where j2: "jobs w2 jobId = Some j2" "status j2 = Processing"
    by (auto simp: w2_def s0_def w1_def)
  from deep_loop_frame [OF s(1), of jobId]
  have rm: "removed w2 = removed w"
    by (simp add: w2_def s0_def w1_def)
  have wr: "writes w2 = writes w + i + 1"
    using s(4) by (simp add: w2_def s0_def w1_def)
  from assms(8) rd s(1) have c: "catch_finally e jobId filePath err w2 = (r, w')"
    by (simp add: deep_worker_def Let_def w1_def s0_def w2_def)
  from catch_finally_removes [OF c] assms(4) rm
  have files: "disk w' (temp_path (results_name jobId)) = Some (File (format_rows (out s)) End)"
    "removed w' = filePath # removed w"
    by (simp_all add: w2_def)
  from catch_finally_job [OF c j2(1)] j2(2) wr
  have "\<exists>j. jobs w' jobId = Some j \<and> status j \<noteq> Completed
      \<and> (store_err e (writes w + i + 1) = None \<longrightarrow>
            status j = Failed \<and> error j = Some err \<and> r = Resolved)
      \<and> (\<forall>err2. store_err e (writes w + i + 1) = Some err2 \<longrightarrow>
            status j = Processing \<and> r = Rejected err2)"
    by auto
  with files lines show ?thesis
    unfolding outs by blast
qed

theorem progress_failure_aborts_witness:
  "map_option (length \<circ> records)
     (disk (snd (deep_run (failing_env 0 ''unavailable'') (File eleven_rows End)))
        ''temp/results-j1.csv'') = Some 10
   \<and> length eleven_rows = 11
   \<and> map_option (\<lambda>j. (status j, error j))
       (jobs (snd (deep_run (failing_env 0 ''unavailable'') (File eleven_rows End))) ''j1'')
     = Some (Failed, Some ''unavailable'')
   \<and> fst (deep_run (failing_env 0 ''unavailable'') (File eleven_rows End)) = Resolved
   \<and> removed (snd (deep_run (failing_env 0 ''unavailable'') (File eleven_rows End)))
     = [''uploads/f1'']
   \<and> map_option status
       (jobs (snd (deep_run (down_env ''unavailable'') (File eleven_rows End))) ''j1'')
     = Some Processing
   \<and> fst (deep_run (down_env ''unavailable'') (File eleven_rows End)) = Rejected ''unavailable''
   \<and> removed (snd (deep_run (down_env ''unavailable'') (File eleven_rows End)))
     = [''uploads/f1'']"
proof -
  let ?e = "failing_env 0 ''unavailable''"
  let ?d = "down_env ''unavailable''"
  let ?f = "File eleven_rows End"
  let ?w = "created ''j1'' ''uploads/f1'' ?f"
  let ?rows = "map (annotate_deep validateEmail) (filter has_email (records ?f))"
  obtain r w' where run: "deep_worker validateEmail ?e ''j1'' ''uploads/f1'' ?w = (r, w')"
    by (cases "deep_worker validateEmail ?e ''j1'' ''uploads/f1'' ?w")
  obtain rd wd where rund: "deep_worker validateEmail ?d ''j1'' ''uploads/f1'' ?w = (rd, wd)"
    by (cases "deep_worker validateEmail ?d ''j1'' ''uploads/f1'' ?w")
  have n: "length (filter has_email eleven_rows) = 11" "length eleven_rows = 11"
    by (simp_all add: eleven_rows_def has_email_def locate_email_def js_or_def truthy_def)
  have start: "jobs ?w ''j1'' = Some (initial_job ''j1'' ''u1'' ''list.csv'' 0)"
      "status (initial_job ''j1'' ''u1'' ''list.csv'' 0) = Processing"
      "disk ?w ''uploads/f1'' = Some ?f" "''uploads/f1'' \<noteq> temp_path (results_name ''j1'')"
      "0 < length (filter has_email (records ?f)) div 10"
    by (simp_all add: created_def initial_job_def temp_path_def n)
  have fails: "\<forall>n<0. store_err ?e (writes ?w + n) = None"
      "store_err ?e (writes ?w + 0) = Some ''unavailable''"
      "\<forall>n<0. store_err ?d (writes ?w + n) = None"
      "store_err ?d (writes ?w + 0) = Some ''unavailable''"
    by (simp_all add: created_def failing_env_def down_env_def sample_env_def)
  have after: "store_err ?e (writes ?w + 0 + 1) = None"
      "store_err ?d (writes ?w + 0 + 1) = Some ''unavailable''" "removed ?w = []"
    by (simp_all add: created_def failing_env_def down_env_def sample_env_def)
  from progress_failure_aborts [OF start fails(1,2) run] after
  obtain j where one: "disk w' (temp_path (results_name ''j1''))
        = Some (File (format_rows (take (10 * (0 + 1)) ?rows)) End)"
      "length (format_rows (take (10 * (0 + 1)) ?rows)) = 10 * (0 + 1)"
      "jobs w' ''j1'' = Some j" "status j = Failed" "error j = Some ''unavailable''"
      "r = Resolved" "removed w' = [''uploads/f1'']"
    by auto
  from progress_failure_aborts [OF start fails(3,4) rund] after
  obtain jd where two: "jobs wd ''j1'' = Some jd" "status jd = Processing"
      "rd = Rejected ''unavailable''" "removed wd = [''uploads/f1'']"
    by auto
  from one two run rund n show ?thesis
    by (simp add: deep_run_def processCsvJob_deep_def temp_path_def results_name_def)
qed

text \<open>
  C4 as stated fails: with eleven records and a store whose first write (the
  progress update after the tenth record) fails, the job ends failed with the
  store's error, the eleventh record is never processed, and the completed
  state is not reached.
\<close>

theorem progress_failure_counterexample:
  "fst (deep_run (failing_env 0 ''unavailable'') (File eleven_rows End)) = Resolved
   \<and> map_option status
       (jobs (snd (deep_run (failing_env 0 ''unavailable'') (File eleven_rows End))) ''j1'')
     = Some Failed
   \<and> map_option error
       (jobs (snd (deep_run (failing_env 0 ''unavailable'') (File eleven_rows End))) ''j1'')
     = Some (Some ''unavailable'')
   \<and> map_option downloadUrl
       (jobs (snd (deep_run (failing_env 0 ''unavailable'') (File eleven_rows End))) ''j1'')
     = Some None
   \<and> map_option (length \<circ> records)
       (disk (snd (deep_run (failing_env 0 ''unavailable'') (File eleven_rows End)))
          ''temp/results-j1.csv'') = Some 10
   \<and> length eleven_rows = 11"
  by (simp add: eval_defs eleven_rows_def)

section \<open>Removal of the uploaded file\<close>

text \<open>The deep-validation worker removes the upload exactly once, in its
  \<^verbatim>\<open>finally\<close> block, however the run ends.\<close>

lemma deep_removes_upload:
  assumes "disk w filePath = Some f" and "filePath \<noteq> temp_path (results_name jobId)"
    and "deep_worker ve e jobId filePath w = (r, w')"
  shows "removed w' = filePath # removed w \<and> disk w' filePath = None"
proof -
  define w1 where "w1 = w\<lparr>disk := (disk w)(temp_path (results_name jobId) \<mapsto> File [] End)\<rparr>"
  define s0 where
    "s0 = \<lparr>processed = 0, counts = \<lparr>validCount = 0, invalidCount = 0, riskyCount = 0\<rparr>,
           out = [], wld = w1\<rparr>"
  obtain thrown s where loop: "deep_loop e ve jobId (records f) s0 = (thrown, s)"
    by (cases "deep_loop e ve jobId (records f) s0")
  define w2 where
    "w2 = (wld s)\<lparr>disk := (disk (wld s))(temp_path (results_name jobId) \<mapsto> File (format_rows (out s)) End)\<rparr>"
  have rd: "disk w1 filePath = Some f"
    using assms(1,2) by (simp add: w1_def)
  from deep_loop_frame [OF loop, of jobId]
  have rm: "removed w2 = removed w"
    by (simp add: w2_def s0_def w1_def)
  have caught: "removed w' = filePath # removed w \<and> disk w' filePath = None"
    if "catch_finally e jobId filePath msg wa = (r, w')" and "removed wa = removed w" for msg wa
    using catch_finally_removes [OF that(1)] that(2) by simp
  show ?thesis
  proof (cases thrown)
    case (Some err)
    with assms(3) rd loop have "catch_finally e jobId filePath err w2 = (r, w')"
      by (simp add: deep_worker_def Let_def w1_def s0_def w2_def)
    from caught [OF this rm] show ?thesis .
  next
    case None
    show ?thesis
    proof (cases "ending f")
      case (Error msg)
      with assms(3) rd loop None have "catch_finally e jobId filePath msg w2 = (r, w')"
        by (simp add: deep_worker_def Let_def w1_def s0_def w2_def)
      from caught [OF this rm] show ?thesis .
    next
      case End
      let ?upd = "complete_fields (processed s) (counts s)
                    (''/api/download/'' @ results_name jobId) (clock e (writes w2))"
      obtain res w3 where up: "update_doc e jobId ?upd w2 = (res, w3)"
        by (cases "update_doc e jobId ?upd w2")
      note ur = update_doc_result [OF up]
      show ?thesis
      proof (cases res)
        case (Some err)
        with assms(3) rd loop None End up have "catch_finally e jobId filePath err w3 = (r, w')"
          by (simp add: deep_worker_def Let_def w1_def s0_def w2_def)
        from caught [OF this] ur(2) rm show ?thesis by simp
      next
        case None
        with assms(3) rd loop \<open>thrown = None\<close> End up have "w' = remove_file filePath w3"
          by (simp add: deep_worker_def Let_def w1_def s0_def w2_def)
        with ur(2) rm show ?thesis by (simp add: remove_file_def)
      qed
    qed
  qed
qed

text \<open>The syntax-only worker removes the upload only when its promise resolves,
  that is after an \<^verbatim>\<open>end\<close> event and a successful final store write.\<close>

lemma worker_removes_upload:
  assumes "disk w filePath = Some f" and "filePath \<noteq> temp_path (results_name jobId)"
    and "processCsvJob e jobId filePath w = (r, w')"
  shows "removed w' = (if r = Resolved then filePath # removed w else removed w)"
    and "disk w' filePath = (if r = Resolved then None else Some f)"
  using assms
  by (auto simp: processCsvJob_def Let_def update_doc_def remove_file_def
      split: ending.splits option.splits prod.splits)

text \<open>
  C3. The claim asks for the upload to be deleted once on every exit path. The
  syntax-only worker does not do that: when the parser stream reports an error
  the job is marked failed and the promise is rejected, but the uploaded file
  is still on disk and no removal was attempted. The deep-validation worker
  removes the file on the same input. The syntax-only worker also keeps the
  file when the stream ends normally and the final store write fails.
\<close>

theorem upload_kept_after_failure:
  "fst (simple_run sample_env (File three_rows (Error ''read failed''))) = Rejected ''read failed''
   \<and> map_option status
        (jobs (snd (simple_run sample_env (File three_rows (Error ''read failed'')))) ''j1'')
      = Some Failed
   \<and> disk (snd (simple_run sample_env (File three_rows (Error ''read failed'')))) ''uploads/f1''
      = Some (File three_rows (Error ''read failed''))
   \<and> removed (snd (simple_run sample_env (File three_rows (Error ''read failed'')))) = []
   \<and> disk (snd (deep_run sample_env (File three_rows (Error ''read failed'')))) ''uploads/f1''
      = None
   \<and> removed (snd (deep_run sample_env (File three_rows (Error ''read failed''))))
      = [''uploads/f1'']
   \<and> fst (simple_run (failing_env 0 ''unavailable'') (File three_rows End))
      = Rejected ''unavailable''
   \<and> disk (snd (simple_run (failing_env 0 ''unavailable'') (File three_rows End))) ''uploads/f1''
      = Some (File three_rows End)
   \<and> removed (snd (simple_run (failing_env 0 ''unavailable'') (File three_rows End))) = []"
  by (simp add: eval_defs)

section \<open>Failure of a job\<close>

lemma deep_loop_no_store_error:
  assumes "\<forall>n. store_err e n = None" and "jobs (wld s) jobId = Some j0"
  shows "fst (deep_loop e ve jobId rows s) = None
    \<and> (\<exists>j. jobs (wld (snd (deep_loop e ve jobId rows s))) jobId = Some j)"
  using assms(2)
proof (induction rows arbitrary: s j0)
  case Nil
  then show ?case by simp
next
  case (Cons row rows)
  obtain r1 s1 where step: "deep_step e ve jobId row s = (r1, s1)"
    by (cases "deep_step e ve jobId row s")
  with assms(1) Cons.prems have r1: "r1 = None" and "\<exists>j. jobs (wld s1) jobId = Some j"
    by (auto simp: deep_step_def update_doc_def Let_def split: if_splits)
  then obtain j1 where "jobs (wld s1) jobId = Some j1" by blast
  from Cons.IH [OF this] step r1 show ?case by simp
qed

text \<open>In the deep-validation worker an error of the parser stream marks the job
  failed and records the error's message, when the store accepts its writes.\<close>

lemma deep_records_error:
  assumes "jobs w jobId = Some j0"
    and "disk w filePath = Some f" and "filePath \<noteq> temp_path (results_name jobId)"
    and "ending f = Error msg" and "\<forall>n. store_err e n = None"
    and "deep_worker ve e jobId filePath w = (r, w')"
  shows "r = Resolved \<and> (\<exists>j. jobs w' jobId = Some j \<and> status j = Failed \<and> error j = Some msg)"
proof -
  define w1 where "w1 = w\<lparr>disk := (disk w)(temp_path (results_name jobId) \<mapsto> File [] End)\<rparr>"
  define s0 where
    "s0 = \<lparr>processed = 0, counts = \<lparr>validCount = 0, invalidCount = 0, riskyCount = 0\<rparr>,
           out = [], wld = w1\<rparr>"
  obtain thrown s where loop: "deep_loop e ve jobId (records f) s0 = (thrown, s)"
    by (cases "deep_loop e ve jobId (records f) s0")
  define w2 where
    "w2 = (wld s)\<lparr>disk := (disk (wld s))(temp_path (results_name jobId) \<mapsto> File (format_rows (out s)) End)\<rparr>"
  have rd: "disk w1 filePath = Some f"
    using assms(2,3) by (simp add: w1_def)
  have "jobs (wld s0) jobId = Some j0"
    using assms(1) by (simp add: s0_def w1_def)
  from deep_loop_no_store_error [OF assms(5) this, of ve "records f"] loop
  obtain j2 where none: "thrown = None" and j2: "jobs w2 jobId = Some j2"
    by (auto simp: w2_def)
  from assms(6) rd loop none assms(4) have c: "catch_finally e jobId filePath msg w2 = (r, w')"
    by (simp add: deep_worker_def Let_def w1_def s0_def w2_def)
  from catch_finally_job [OF c j2] assms(5) show ?thesis
    by auto
qed

text \<open>The response of the upload route does not depend on the worker or on how
  the worker's promise settles.\<close>

lemma upload_response:
  "fst (upload worker e req w) = fst (upload worker' e req w)"
  by (simp add: upload_def Let_def split: sum.splits option.splits prod.splits)

text \<open>When the uploaded file cannot be opened, neither worker makes a store write:
  the error is raised on the file stream, and the handlers of both workers
  listen to the parser stream only.\<close>

lemma unreadable_upload:
  assumes "disk w filePath = None" and "filePath \<noteq> temp_path (results_name jobId)"
  shows "fst (processCsvJob e jobId filePath w) = Uncaught ''ENOENT''"
    and "jobs (snd (processCsvJob e jobId filePath w)) = jobs w"
    and "snapshots (snd (processCsvJob e jobId filePath w)) = snapshots w"
    and "fst (deep_worker ve e jobId filePath w) = Uncaught ''ENOENT''"
    and "jobs (snd (deep_worker ve e jobId filePath w)) = jobs w"
    and "snapshots (snd (deep_worker ve e jobId filePath w)) = snapshots w"
  using assms by (simp_all add: processCsvJob_def deep_worker_def Let_def)

text \<open>
  C7. The claim asks that every processing error, a failure to read the
  uploaded file among them, leaves the job failed with an error detail on its
  record. When the uploaded file cannot be opened, neither worker does that: no
  store write is made, the job stays processing with no error detail, and the
  error reaches no handler of the worker. The upload route has answered with
  the job id all the same.
\<close>

theorem read_failure_leaves_processing:
  "fst (processCsvJob sample_env ''j1'' ''uploads/f1'' (orphaned ''j1'')) = Uncaught ''ENOENT''
   \<and> map_option status
       (jobs (snd (processCsvJob sample_env ''j1'' ''uploads/f1'' (orphaned ''j1''))) ''j1'')
     = Some Processing
   \<and> map_option error
       (jobs (snd (processCsvJob sample_env ''j1'' ''uploads/f1'' (orphaned ''j1''))) ''j1'')
     = Some None
   \<and> snapshots (snd (processCsvJob sample_env ''j1'' ''uploads/f1'' (orphaned ''j1''))) = []
   \<and> fst (processCsvJob_deep sample_env ''j1'' ''uploads/f1'' (orphaned ''j1''))
     = Uncaught ''ENOENT''
   \<and> map_option status
       (jobs (snd (processCsvJob_deep sample_env ''j1'' ''uploads/f1'' (orphaned ''j1''))) ''j1'')
     = Some Processing
   \<and> map_option error
       (jobs (snd (processCsvJob_deep sample_env ''j1'' ''uploads/f1'' (orphaned ''j1''))) ''j1'')
     = Some None
   \<and> snapshots (snd (processCsvJob_deep sample_env ''j1'' ''uploads/f1'' (orphaned ''j1''))) = []
   \<and> fst (upload processCsvJob sample_env upload_request (disk_only Map.empty)) = Started ''j1''
   \<and> map_option status
       (jobs (snd (upload processCsvJob sample_env upload_request (disk_only Map.empty))) ''j1'')
     = Some Processing
   \<and> map_option error
       (jobs (snd (upload processCsvJob sample_env upload_request (disk_only Map.empty))) ''j1'')
     = Some None"
  by (simp add: eval_defs orphaned_def upload_def authenticateUser_def upload_request_def
      disk_only_def)

section \<open>What a polling caller observes\<close>

lemma observed_ok_same:
  assumes "observed_ok w0 jobId w" and "snapshots w' = snapshots w" and "jobs w' = jobs w"
  shows "observed_ok w0 jobId w'"
  using assms by (simp add: observed_ok_def)

lemma observed_ok_update:
  assumes ok: "observed_ok w0 jobId w" and up: "update_doc e jobId upd w = (res, w')"
    and keeps: "\<And>j. unwritten j \<Longrightarrow> unwritten (upd j)"
  shows "observed_ok w0 jobId w'"
proof (cases res)
  case (Some err)
  with update_doc_result(5) [OF up] have "jobs w' = jobs w \<and> snapshots w' = snapshots w"
    by simp
  with observed_ok_same [OF ok] show ?thesis by simp
next
  case None
  from update_doc_result(4) [OF up None] obtain j where j: "jobs w jobId = Some j"
    "jobs w' = (jobs w)(jobId \<mapsto> upd j)" "snapshots w' = (jobId, upd j) # snapshots w"
    by blast
  from ok obtain new where new: "snapshots w = new @ snapshots w0"
    "\<forall>v \<in> set new. unwritten (snd v)" and doc: "\<forall>j. jobs w jobId = Some j \<longrightarrow> unwritten j"
    unfolding observed_ok_def by blast
  from doc j(1) have "unwritten (upd j)" by (simp add: keeps)
  with new j have "snapshots w' = ((jobId, upd j) # new) @ snapshots w0"
    "\<forall>v \<in> set ((jobId, upd j) # new). unwritten (snd v)"
    "\<forall>j'. jobs w' jobId = Some j' \<longrightarrow> unwritten j'"
    by simp_all
  then show ?thesis
    unfolding observed_ok_def by blast
qed

lemma progress_fields_frame:
  "progress_fields n c j = j\<lparr>processedCount := n, stats := stats (progress_fields n c j)\<rparr>"
  "status (progress_fields n c j) = status j"
  "totalEmails (progress_fields n c j) = totalEmails j"
  by (simp_all add: progress_fields_def)

lemma deep_step_observed:
  assumes "observed_ok w0 jobId (wld s)" and "deep_step e ve jobId row s = (r, s')"
  shows "observed_ok w0 jobId (wld s')"
proof (cases "has_email row \<and> (processed s + 1) mod 10 = 0")
  case False
  with assms(2) have "wld s' = wld s"
    by (auto simp: deep_step_def has_email_def Let_def split: if_splits)
  with assms(1) show ?thesis by simp
next
  case True
  let ?upd = "progress_fields (processed s + 1) (counts (advance ve row s))"
  obtain res w' where up: "update_doc e jobId ?upd (wld s) = (res, w')"
    by (cases "update_doc e jobId ?upd (wld s)")
  from deep_step_report [of row s e ve jobId] True up assms(2) have "wld s' = w'"
    by auto
  moreover have "observed_ok w0 jobId w'"
    by (rule observed_ok_update [OF assms(1) up]) (simp add: unwritten_def progress_fields_frame(2,3))
  ultimately show ?thesis by simp
qed

lemma deep_loop_observed:
  assumes "observed_ok w0 jobId (wld s)" and "deep_loop e ve jobId rows s = (r, s')"
  shows "observed_ok w0 jobId (wld s')"
  using assms
proof (induction rows arbitrary: s)
  case Nil
  then show ?case by simp
next
  case (Cons row rows)
  obtain r1 s1 where step: "deep_step e ve jobId row s = (r1, s1)"
    by (cases "deep_step e ve jobId row s")
  note ok1 = deep_step_observed [OF Cons.prems(1) step]
  show ?case
  proof (cases r1)
    case None
    with step Cons.prems(2) have "deep_loop e ve jobId rows s1 = (r, s')" by simp
    from Cons.IH [OF ok1 this] show ?thesis .
  next
    case (Some err)
    with step Cons.prems(2) have "s' = s1" by simp
    with ok1 show ?thesis by simp
  qed
qed

lemma catch_finally_observed:
  assumes "observed_ok w0 jobId w" and "catch_finally e jobId filePath msg w = (r, w')"
  shows "observed_ok w0 jobId w'"
proof -
  let ?upd = "\<lambda>j. j\<lparr>status := Failed, error := Some msg\<rparr>"
  obtain res w1 where up: "update_doc e jobId ?upd w = (res, w1)"
    by (cases "update_doc e jobId ?upd w")
  have ok1: "observed_ok w0 jobId w1"
    by (rule observed_ok_update [OF assms(1) up]) (simp add: unwritten_def)
  from assms(2) up have "w' = remove_file filePath w1"
    by (auto simp: catch_finally_def split: option.splits)
  with observed_ok_same [OF ok1] show ?thesis
    by (simp add: remove_file_def)
qed

lemma deep_worker_observed:
  assumes "observed_ok w0 jobId w"
  shows "observed_ok w0 jobId (snd (deep_worker ve e jobId filePath w))"
proof -
  define w1 where "w1 = w\<lparr>disk := (disk w)(temp_path (results_name jobId) \<mapsto> File [] End)\<rparr>"
  have ok1: "observed_ok w0 jobId w1"
    using observed_ok_same [OF assms] by (simp add: w1_def)
  show ?thesis
  proof (cases "disk w1 filePath")
    case None
    with ok1 show ?thesis
      by (simp add: deep_worker_def Let_def w1_def)
  next
    case (Some f)
    define s0 where
      "s0 = \<lparr>processed = 0, counts = \<lparr>validCount = 0, invalidCount = 0, riskyCount = 0\<rparr>,
             out = [], wld = w1\<rparr>"
    obtain thrown s where loop: "deep_loop e ve jobId (records f) s0 = (thrown, s)"
      by (cases "deep_loop e ve jobId (records f) s0")
    define w2 where
      "w2 = (wld s)\<lparr>disk := (disk (wld s))(temp_path (results_name jobId) \<mapsto> File (format_rows (out s)) End)\<rparr>"
    have "observed_ok w0 jobId (wld s0)"
      using ok1 by (simp add: s0_def)
    from deep_loop_observed [OF this loop] have "observed_ok w0 jobId (wld s)" .
    from observed_ok_same [OF this] have ok2: "observed_ok w0 jobId w2"
      by (simp add: w2_def)
    let ?upd = "complete_fields (processed s) (counts s)
                  (''/api/download/'' @ results_name jobId) (clock e (writes w2))"
    obtain res w3 where up: "update_doc e jobId ?upd w2 = (res, w3)"
      by (cases "update_doc e jobId ?upd w2")
    have ok3: "observed_ok w0 jobId w3"
      by (rule observed_ok_update [OF ok2 up]) (simp add: unwritten_def complete_fields_def)
    from observed_ok_same [OF ok3] have ok4: "observed_ok w0 jobId (remove_file filePath w3)"
      by (simp add: remove_file_def)
    have run: "deep_worker ve e jobId filePath w
        = (case thrown of
             Some err \<Rightarrow> catch_finally e jobId filePath err w2
           | None \<Rightarrow>
               (case ending f of
                  Error msg \<Rightarrow> catch_finally e jobId filePath msg w2
                | End \<Rightarrow>
                    (case res of
                       None \<Rightarrow> (Resolved, remove_file filePath w3)
                     | Some err \<Rightarrow> catch_finally e jobId filePath err w3)))"
      using Some loop up
      by (simp add: deep_worker_def Let_def w1_def s0_def w2_def
          split: option.splits ending.splits)
    have c2: "observed_ok w0 jobId (snd (catch_finally e jobId filePath msg w2))" for msg
      using catch_finally_observed [OF ok2, of e filePath msg]
      by (cases "catch_finally e jobId filePath msg w2") simp
    have c3: "observed_ok w0 jobId (snd (catch_finally e jobId filePath msg w3))" for msg
      using catch_finally_observed [OF ok3, of e filePath msg]
      by (cases "catch_finally e jobId filePath msg w3") simp
    from c2 c3 ok4 show ?thesis
      unfolding run by (simp split: option.splits ending.splits)
  qed
qed

lemma processCsvJob_observed:
  assumes "observed_ok w0 jobId w"
  shows "observed_ok w0 jobId (snd (processCsvJob e jobId filePath w))"
proof -
  define w1 where "w1 = w\<lparr>disk := (disk w)(temp_path (results_name jobId) \<mapsto> File [] End)\<rparr>"
  have ok1: "observed_ok w0 jobId w1"
    using observed_ok_same [OF assms] by (simp add: w1_def)
  show ?thesis
  proof (cases "disk w1 filePath")
    case None
    with ok1 show ?thesis
      by (simp add: processCsvJob_def Let_def w1_def)
  next
    case (Some f)
    define st where
      "st = foldl (on_data e) (\<lparr>validCount = 0, invalidCount = 0, riskyCount = 0\<rparr>, []) (records f)"
    define w2 where
      "w2 = w1\<lparr>disk := (disk w1)(temp_path (results_name jobId) \<mapsto> File (format_rows (snd st)) End)\<rparr>"
    from observed_ok_same [OF ok1] have ok2: "observed_ok w0 jobId w2"
      by (simp add: w2_def)
    have final: "observed_ok w0 jobId w3"
      if "update_doc e jobId (final_fields (fst st) (results_name jobId)) w2 = (res, w3)" for res w3
      by (rule observed_ok_update [OF ok2 that]) (simp add: unwritten_def final_fields_def)
    have failed: "observed_ok w0 jobId w3"
      if "update_doc e jobId (\<lambda>j. j\<lparr>status := Failed\<rparr>) w2 = (res, w3)" for res w3
      by (rule observed_ok_update [OF ok2 that]) (simp add: unwritten_def)
    have removed: "observed_ok w0 jobId (remove_file filePath w3)"
      if "observed_ok w0 jobId w3" for w3
      using observed_ok_same [OF that] by (simp add: remove_file_def)
    from Some final failed removed show ?thesis
      by (auto simp: processCsvJob_def Let_def w1_def st_def w2_def
          split: option.splits ending.splits prod.splits)
  qed
qed

lemma set_doc_result:
  assumes "set_doc e jobId j w = (res, w')"
  shows "res = None \<Longrightarrow> jobs w' jobId = Some j \<and> snapshots w' = (jobId, j) # snapshots w"
    and "res \<noteq> None \<Longrightarrow> snapshots w' = snapshots w"
  using assms by (auto simp: set_doc_def Let_def split: option.splits)

lemma upload_observed:
  assumes wk: "\<And>jobId filePath w1.
      observed_ok w jobId w1 \<Longrightarrow> observed_ok w jobId (snd (worker e jobId filePath w1))"
  shows "\<exists>new. snapshots (snd (upload worker e req w)) = new @ snapshots w
    \<and> (\<forall>v \<in> set new. unwritten (snd v))"
proof -
  have same: ?thesis if "snapshots (snd (upload worker e req w)) = snapshots w"
    using that by simp
  show ?thesis
  proof (cases "authenticateUser e req")
    case (Inl r)
    then show ?thesis by (intro same) (simp add: upload_def)
  next
    case (Inr uid)
    show ?thesis
    proof (cases "upload_file req")
      case None
      with Inr show ?thesis by (intro same) (simp add: upload_def)
    next
      case (Some fl)
      obtain filePath originalName where fl: "fl = (filePath, originalName)"
        by (cases fl)
      let ?id = "gen_id e (writes w)"
      let ?j = "initial_job ?id uid originalName (clock e (writes w))"
      obtain res w1 where sd: "set_doc e ?id ?j w = (res, w1)"
        by (cases "set_doc e ?id ?j w")
      show ?thesis
      proof (cases res)
        case (Some err)
        with set_doc_result(2) [OF sd] have "snapshots w1 = snapshots w" by simp
        with Inr \<open>upload_file req = Some fl\<close> fl sd Some show ?thesis
          by (intro same) (simp add: upload_def Let_def remove_file_def)
      next
        case None
        from set_doc_result(1) [OF sd None]
        have w1: "jobs w1 ?id = Some ?j" "snapshots w1 = [(?id, ?j)] @ snapshots w"
          by simp_all
        have "unwritten ?j"
          by (simp add: unwritten_def initial_job_def)
        with w1 have "observed_ok w ?id w1"
          unfolding observed_ok_def by (intro conjI exI [of _ "[(?id, ?j)]"]) simp_all
        from wk [OF this, of filePath]
        have "observed_ok w ?id (snd (worker e ?id filePath w1))" .
        moreover from Inr \<open>upload_file req = Some fl\<close> fl sd None
        have "snd (upload worker e req w) = snd (worker e ?id filePath w1)"
          by (simp add: upload_def Let_def)
        ultimately show ?thesis
          by (simp add: observed_ok_def)
      qed
    qed
  qed
qed

text \<open>
  C10. The upload route creates the job with \<open>totalEmails = 0\<close> and status
  processing; an intermediate progress update changes \<open>processedCount\<close> and
  \<open>stats\<close> and nothing else; and in every version of the job document that
  the store holds in the course of an upload request, with either worker, the
  status processing goes with \<open>totalEmails = 0\<close>.
\<close>

theorem totalEmails_unwritten_while_processing:
  assumes "worker = processCsvJob \<or> worker = processCsvJob_deep"
  shows "(\<forall>v \<in> set (written_since w (snd (upload worker e req w))).
            status (snd v) = Processing \<longrightarrow> totalEmails (snd v) = 0)
    \<and> status (initial_job jobId uid name t) = Processing
    \<and> totalEmails (initial_job jobId uid name t) = 0
    \<and> progress_fields n c j = j\<lparr>processedCount := n, stats := stats (progress_fields n c j)\<rparr>"
proof -
  have wk: "observed_ok w i w1 \<Longrightarrow> observed_ok w i (snd (worker e i p w1))" for i p w1
    using assms processCsvJob_observed [of w i w1 e p]
      deep_worker_observed [of w i w1 validateEmail e p]
    by (auto simp: processCsvJob_deep_def)
  from upload_observed [of w worker e req, OF wk] obtain new where
    new: "snapshots (snd (upload worker e req w)) = new @ snapshots w"
    "\<forall>v \<in> set new. unwritten (snd v)"
    by blast
  from new(1) have "written_since w (snd (upload worker e req w)) = new"
    by (simp add: written_since_def)
  with new(2) have "\<forall>v \<in> set (written_since w (snd (upload worker e req w))).
      status (snd v) = Processing \<longrightarrow> totalEmails (snd v) = 0"
    by (simp add: unwritten_def)
  then show ?thesis
    by (simp add: initial_job_def progress_fields_def)
qed

theorem totalEmails_unwritten_witness:
  "map (\<lambda>v. (status (snd v), processedCount (snd v), totalEmails (snd v)))
     (written_since (uploaded (File eleven_rows End))
        (snd (upload processCsvJob_deep sample_env upload_request (uploaded (File eleven_rows End)))))
     = [(Completed, 11, 0), (Processing, 10, 0), (Processing, 0, 0)]
   \<and> list_all (\<lambda>v. totalEmails (snd v) = 0)
        (filter (\<lambda>v. status (snd v) = Processing)
           (written_since (uploaded (File eleven_rows End))
              (snd (upload processCsvJob_deep sample_env upload_request
                      (uploaded (File eleven_rows End))))))
   \<and> map (\<lambda>v. (status (snd v), processedCount (snd v), totalEmails (snd v)))
       (written_since (uploaded (File three_rows End))
          (snd (upload processCsvJob sample_env upload_request (uploaded (File three_rows End)))))
     = [(Completed, 3, 3), (Processing, 0, 0)]
   \<and> list_all (\<lambda>v. totalEmails (snd v) = 0)
        (filter (\<lambda>v. status (snd v) = Processing)
           (written_since (uploaded (File three_rows End))
              (snd (upload processCsvJob sample_env upload_request
                      (uploaded (File three_rows End))))))"
proof -
  let ?deep = "written_since (uploaded (File eleven_rows End))
      (snd (upload processCsvJob_deep sample_env upload_request (uploaded (File eleven_rows End))))"
  let ?simple = "written_since (uploaded (File three_rows End))
      (snd (upload processCsvJob sample_env upload_request (uploaded (File three_rows End))))"
  from totalEmails_unwritten_while_processing [of processCsvJob_deep
      "uploaded (File eleven_rows End)" sample_env upload_request]
  have "\<forall>v \<in> set ?deep. status (snd v) = Processing \<longrightarrow> totalEmails (snd v) = 0"
    by blast
  then have d: "list_all (\<lambda>v. totalEmails (snd v) = 0)
      (filter (\<lambda>v. status (snd v) = Processing) ?deep)"
    by (simp add: list_all_iff)
  from totalEmails_unwritten_while_processing [of processCsvJob
      "uploaded (File three_rows End)" sample_env upload_request]
  have "\<forall>v \<in> set ?simple. status (snd v) = Processing \<longrightarrow> totalEmails (snd v) = 0"
    by blast
  then have s: "list_all (\<lambda>v. totalEmails (snd v) = 0)
      (filter (\<lambda>v. status (snd v) = Processing) ?simple)"
    by (simp add: list_all_iff)
  have ed: "map (\<lambda>v. (status (snd v), processedCount (snd v), totalEmails (snd v))) ?deep
      = [(Completed, 11, 0), (Processing, 10, 0), (Processing, 0, 0)]"
    by (simp add: eval_defs eleven_rows_def upload_def authenticateUser_def upload_request_def
        uploaded_def disk_only_def written_since_def)
  have es: "map (\<lambda>v. (status (snd v), processedCount (snd v), totalEmails (snd v))) ?simple
      = [(Completed, 3, 3), (Processing, 0, 0)]"
    by (simp add: eval_defs upload_def authenticateUser_def upload_request_def
        uploaded_def disk_only_def written_since_def)
  from d s ed es show ?thesis
    by blast
qed

end
